theory Spec2Isabelle
  imports Main "HOL-Library.Sublist"
begin

section \<open>Strings\<close>

text \<open>
  A \<open>string\<close> stands for a JavaScript string, one \<open>char\<close> per code unit.
  \<open>indexOf\<close> is \<open>String.prototype.indexOf\<close> with one argument: the index of the
  first occurrence, \<open>-1\<close> when there is none; the empty string is found at index 0.
\<close>

fun indexOf :: "string \<Rightarrow> string \<Rightarrow> int" where
  "indexOf [] s = (if s = [] then 0 else - 1)"
| "indexOf (c # cs) s =
     (if prefix s (c # cs) then 0
      else (let r = indexOf cs s in if r = - 1 then - 1 else r + 1))"

text \<open>
  \<open>substring\<close> is \<open>String.prototype.substring(start, end)\<close>: both indices are clamped
  to the length of the string and swapped when \<open>start > end\<close>. \<open>substringFrom\<close> is the
  one-argument form.
\<close>

definition clampIndex :: "string \<Rightarrow> int \<Rightarrow> nat" where
  "clampIndex s i = (if i < 0 then 0 else min (nat i) (length s))"

definition substring :: "string \<Rightarrow> int \<Rightarrow> int \<Rightarrow> string" where
  "substring s a b =
     (let a' = clampIndex s a; b' = clampIndex s b;
          lo = min a' b'; hi = max a' b'
      in take (hi - lo) (drop lo s))"

definition substringFrom :: "string \<Rightarrow> int \<Rightarrow> string" where
  "substringFrom s a = drop (clampIndex s a) s"

text \<open>
  \<open>removeFirst s pat\<close> is \<open>s.replace(pat, "")\<close> with a string pattern: the first
  occurrence of \<open>pat\<close> is removed, and \<open>s\<close> is returned as it is when there is none.
\<close>

definition removeFirst :: "string \<Rightarrow> string \<Rightarrow> string" where
  "removeFirst s pat =
     (let i = indexOf s pat
      in if i = - 1 then s else take (nat i) s @ drop (nat i + length pat) s)"

text \<open>
  \<open>trim\<close> is \<open>String.prototype.trim\<close>: white space and line terminators are removed
  at both ends. Of the code units below 256 these are tab, line feed, vertical tab, form
  feed, carriage return, space and the no-break space.
\<close>

definition isSpace :: "char \<Rightarrow> bool" where
  "isSpace c = (c \<in> set [CHR 0x09, CHR 0x0A, CHR 0x0B, CHR 0x0C, CHR 0x0D, CHR 0x20, CHR 0xA0])"

definition trim :: "string \<Rightarrow> string" where
  "trim s = rev (dropWhile isSpace (rev (dropWhile isSpace s)))"

text \<open>Decimal rendering of a number inside a template literal.\<close>

definition digitChar :: "nat \<Rightarrow> char" where
  "digitChar d = ''0123456789'' ! d"

fun string_of_nat :: "nat \<Rightarrow> string" where
  "string_of_nat n =
     (if n < 10 then [digitChar n]
      else string_of_nat (n div 10) @ [digitChar (n mod 10)])"

declare string_of_nat.simps [simp del]

definition string_of_int :: "int \<Rightarrow> string" where
  "string_of_int i = (if i < 0 then CHR ''-'' # string_of_nat (nat (- i)) else string_of_nat (nat i))"

text \<open>
  \<open>toFixed2 a b\<close> is \<open>(a / b).toFixed(2)\<close> for a quotient that the division gives
  exactly (\<open>b\<close> a power of two, \<open>a\<close> below 9007199254740992): the decimal with two digits
  after the point that is nearest to it, the larger of two that are equally near.
\<close>

definition toFixed2 :: "nat \<Rightarrow> nat \<Rightarrow> string" where
  "toFixed2 a b =
     (let k = (200 * a + b) div (2 * b)
      in string_of_nat (k div 100) @ ''.'' @ [digitChar (k mod 100 div 10), digitChar (k mod 10)])"

text \<open>The line feed.\<close>

definition newline :: string where
  "newline = [CHR 0x0A]"

text \<open>
  \<open>uniq\<close> is \<open>[...new Set(xs)]\<close>: a \<open>Set\<close> keeps the first insertion of each element,
  in insertion order. \<open>setAdd\<close> is \<open>Set.prototype.add\<close> on a set kept as the list of its
  elements in insertion order.
\<close>

fun uniq :: "'a list \<Rightarrow> 'a list" where
  "uniq [] = []"
| "uniq (x # xs) = x # removeAll x (uniq xs)"

definition setAdd :: "'a \<Rightarrow> 'a list \<Rightarrow> 'a list" where
  "setAdd x xs = (if x \<in> set xs then xs else xs @ [x])"

section \<open>The environment: version control and file system\<close>

type_synonym path = string

datatype error = Error string

record git_status =
  modified :: "string list"
  not_added :: "string list"
  staged :: "string list"

text \<open>
  The observable actions of a run, in the order they happen. A call of the version-control
  adapter is recorded together with its outcome (\<open>Inl\<close> a thrown error, \<open>Inr\<close> the value
  returned). \<open>Tracked\<close>, \<open>SkipDuplicate\<close> and \<open>AutoSnapshot\<close> are the log lines
  "Tracked file change", "Commit already in progress, skipping duplicate snapshot creation"
  and "Auto-creating snapshots after ... of inactivity"; the last is recorded with the
  time at which it is written and the \<open>timeoutMs\<close> it prints.
\<close>

datatype event =
    GitStatus string "error + git_status"
  | GitCommit string "string list" string "error + string"
  | WriteFile path string
  | Tracked string string
  | SkipDuplicate
  | AutoSnapshot nat nat

text \<open>
  The collaborators whose code is outside these modules are parameters. Each answer may
  depend on everything that has happened so far (the trace), so that a call may fail at
  one time and succeed at the next.
  \<^item> \<open>revparse\<close>, \<open>checkout\<close>, \<open>gitLog\<close>, \<open>revert\<close> and \<open>reset\<close> are the
    methods of the git client created for a working directory; they return a value or
    throw. \<open>gitLog\<close> gives the \<open>hash\<close> field of each entry of \<open>logs.all\<close>;
    \<open>jsonParse\<close> is \<open>JSON.parse\<close>.
  \<^item> \<open>getGitStatus\<close> and \<open>commitChanges\<close> return a value or throw.
  \<^item> \<open>validatePath\<close> resolves a path (home directory, working directory, symbolic
    links) and returns a path; it does not throw. \<open>fsWriteFile\<close> is \<open>fs.writeFile\<close>,
    \<open>None\<close> when it succeeds.
  \<^item> \<open>byteLength\<close> is the size in bytes of a file with the given content (what
    \<open>fs.stat\<close> reports as \<open>size\<close>); \<open>isImage\<close> is \<open>isImageFile (getMimeType path)\<close> of
    the module \<open>mime-types\<close>; \<open>base64\<close> is the \<open>toString\<close> of a \<open>Buffer\<close> in base 64.
  \<^item> \<open>readTime\<close> is the number of milliseconds after which the read of a file settles,
    \<open>None\<close> when it never does; \<open>timerWins\<close> says whether the callback of a timer runs
    before that of an operation that settles at the very time the timer is due.
  The telemetry call \<open>capture\<close> catches its own errors and changes none of this state;
  it is left out.
\<close>

record commit_record =
  commit_hash :: string
  commit_date :: string
  commit_message :: string
  commit_author :: string

record env =
  revparse :: "event list \<Rightarrow> path \<Rightarrow> string list \<Rightarrow> error + string"
  checkout :: "event list \<Rightarrow> path \<Rightarrow> string list \<Rightarrow> error + unit"
  gitLog :: "event list \<Rightarrow> path \<Rightarrow> string list \<Rightarrow> error + string list"
  revert :: "event list \<Rightarrow> path \<Rightarrow> string \<Rightarrow> error + unit"
  reset :: "event list \<Rightarrow> path \<Rightarrow> string list \<Rightarrow> error + unit"
  jsonParse :: "string \<Rightarrow> error + commit_record"
  getGitStatus :: "event list \<Rightarrow> string \<Rightarrow> error + git_status"
  commitChanges :: "event list \<Rightarrow> string \<Rightarrow> string list \<Rightarrow> string \<Rightarrow> error + string"
  validatePath :: "path \<Rightarrow> path"
  byteLength :: "string \<Rightarrow> nat"
  isImage :: "path \<Rightarrow> bool"
  base64 :: "string \<Rightarrow> string"
  readTime :: "event list \<Rightarrow> path \<Rightarrow> nat option"
  timerWins :: bool
  fsWriteFile :: "event list \<Rightarrow> path \<Rightarrow> string \<Rightarrow> error option"

section \<open>git.ts\<close>

text \<open>
  Each function is a \<open>try\<close> around its calls of the git client and a \<open>catch\<close> that
  reports the error and then either rethrows it or returns a fallback value. The result
  is \<open>Inl\<close> when the function throws to its caller.
\<close>

definition isGitRepository :: "env \<Rightarrow> event list \<Rightarrow> path \<Rightarrow> bool" where
  "isGitRepository env tr path =
     (case revparse env tr path [''--is-inside-work-tree''] of
        Inr out \<Rightarrow> True
      | Inl err \<Rightarrow> False)"

definition getRepositoryRoot :: "env \<Rightarrow> event list \<Rightarrow> path \<Rightarrow> error + string" where
  "getRepositoryRoot env tr path =
     (case revparse env tr path [''--show-toplevel''] of
        Inr result \<Rightarrow> Inr (trim result)
      | Inl err \<Rightarrow> Inl err)"

definition revertToCommit :: "env \<Rightarrow> event list \<Rightarrow> path \<Rightarrow> string \<Rightarrow> error + unit" where
  "revertToCommit env tr repoPath commitHash =
     (case reset env tr repoPath [''--hard'', commitHash] of
        Inr u \<Rightarrow> Inr ()
      | Inl err \<Rightarrow> Inl err)"

definition revertFile :: "env \<Rightarrow> event list \<Rightarrow> path \<Rightarrow> string \<Rightarrow> error + unit" where
  "revertFile env tr filePath commitHash =
     (let body =
        (if isGitRepository env tr filePath then
           (case getRepositoryRoot env tr filePath of
              Inl err \<Rightarrow> Inl err
            | Inr repoRoot \<Rightarrow>
                (let relativePath = removeFirst filePath (repoRoot @ ''/'')
                 in case checkout env tr repoRoot [commitHash, ''--'', relativePath] of
                      Inl err \<Rightarrow> Inl err
                    | Inr u \<Rightarrow> Inr ()))
         else Inr ())
      in case body of
           Inr u \<Rightarrow> Inr ()
         | Inl err \<Rightarrow> Inl err)"

fun mapResult :: "('a \<Rightarrow> error + 'b) \<Rightarrow> 'a list \<Rightarrow> error + 'b list" where
  "mapResult f [] = Inr []"
| "mapResult f (x # xs) =
     (case f x of
        Inl err \<Rightarrow> Inl err
      | Inr y \<Rightarrow> (case mapResult f xs of Inl err \<Rightarrow> Inl err | Inr ys \<Rightarrow> Inr (y # ys)))"

definition prettyFormat :: string where
  \<open>prettyFormat = ''--pretty=format:{"hash":"%h","date":"%ad","message":"%s","author":"%an"}''\<close>

definition logOptions :: "int \<Rightarrow> string \<Rightarrow> string list" where
  "logOptions maxCount relativePath =
     [''--max-count='' @ string_of_int maxCount, prettyFormat, ''--date=iso'', ''--'', relativePath]"

definition getFileHistory ::
  "env \<Rightarrow> event list \<Rightarrow> path \<Rightarrow> int \<Rightarrow> error + commit_record list" where
  "getFileHistory env tr filePath maxCount =
     (let body =
        (if isGitRepository env tr filePath then
           (case getRepositoryRoot env tr filePath of
              Inl err \<Rightarrow> Inl err
            | Inr repoRoot \<Rightarrow>
                (let relativePath = removeFirst filePath (repoRoot @ ''/'')
                 in case gitLog env tr repoRoot (logOptions maxCount relativePath) of
                      Inl err \<Rightarrow> Inl err
                    | Inr logs \<Rightarrow> mapResult (jsonParse env) logs))
         else Inr [])
      in case body of
           Inr history \<Rightarrow> Inr history
         | Inl err \<Rightarrow> Inr [])"

definition revertCommit :: "env \<Rightarrow> event list \<Rightarrow> path \<Rightarrow> string \<Rightarrow> error + unit" where
  "revertCommit env tr repoPath commitHash =
     (case revert env tr repoPath commitHash of
        Inr u \<Rightarrow> Inr ()
      | Inl err \<Rightarrow> Inl err)"

section \<open>The module state of batch-operations.ts\<close>

text \<open>
  \<open>pendingChangesByRepo\<close> is a \<open>Record<string, Set<string>>\<close>: the list of its entries
  in insertion order (the keys are repository paths), each \<open>Set\<close> as the list of its
  elements. \<open>snapshotTimeoutId\<close> is the handle of the last timer set, if any: the time
  at which the timer fires, the \<open>timeoutMs\<close> its callback has captured, and whether it
  is still armed (it has neither fired nor been cleared). \<open>now\<close> is what \<open>Date.now()\<close>
  returns.
\<close>

record timer =
  fireAt :: nat
  window :: nat
  armed :: bool

record world =
  disk :: "path \<rightharpoonup> string"
  pendingChangesByRepo :: "(string \<times> string list) list"
  lastTrackTimestamp :: nat
  commitInProgress :: bool
  snapshotTimeoutId :: "timer option"
  now :: nat
  trace :: "event list"

fun addPending :: "string \<Rightarrow> string \<Rightarrow> (string \<times> string list) list \<Rightarrow> (string \<times> string list) list" where
  "addPending repoRoot rel [] = [(repoRoot, [rel])]"
| "addPending repoRoot rel ((k, files) # rest) =
     (if k = repoRoot then (k, setAdd rel files) # rest
      else (k, files) # addPending repoRoot rel rest)"

section \<open>The sweep: createSnapshotsForPendingChanges\<close>

text \<open>\<open>message || generated\<close>: an absent or empty message is falsy.\<close>

definition orElse :: "string option \<Rightarrow> string \<Rightarrow> string" where
  "orElse message generated =
     (case message of None \<Rightarrow> generated | Some m \<Rightarrow> if m = [] then generated else m)"

definition commitMessageFor :: "string option \<Rightarrow> string list \<Rightarrow> string" where
  "commitMessageFor message fileArray =
     orElse message
       (if length fileArray = 1 then ''Project snapshot before editing '' @ fileArray ! 0
        else ''Project snapshot before editing '' @ string_of_nat (length fileArray) @ '' files'')"

text \<open>
  Lines 228 to 263: the modified, new and staged files of the status, without duplicates,
  and the tracked files only when that list is empty.
\<close>

definition filesToCommit :: "git_status \<Rightarrow> string list \<Rightarrow> string list" where
  "filesToCommit status fileArray =
     (let a0 = [];
          a1 = (if modified status \<noteq> [] then a0 @ modified status else a0);
          a2 = (if not_added status \<noteq> [] then a1 @ not_added status else a1);
          a3 = (if staged status \<noteq> [] then a2 @ staged status else a2);
          a4 = uniq a3
      in if length a4 = 0 then fileArray else a4)"

text \<open>
  The body of the inner \<open>try\<close> for one entry whose set is not empty: it throws when the
  status query or the commit throws, and clears the set after a commit that returned.
\<close>

definition snapshotRepoTry ::
  "env \<Rightarrow> string option \<Rightarrow> string \<times> string list \<Rightarrow> event list
     \<Rightarrow> (error + unit) \<times> (string \<times> string list) \<times> event list" where
  "snapshotRepoTry env message entry tr =
     (let repoRoot = fst entry; files = snd entry;
          fileArray = files;
          commitMessage = commitMessageFor message fileArray
      in case getGitStatus env tr repoRoot of
           Inl err \<Rightarrow> (Inl err, (repoRoot, files), tr @ [GitStatus repoRoot (Inl err)])
         | Inr status \<Rightarrow>
             (let tr1 = tr @ [GitStatus repoRoot (Inr status)];
                  allChangedFiles = filesToCommit status fileArray
              in case commitChanges env tr1 repoRoot allChangedFiles commitMessage of
                   Inl err \<Rightarrow>
                     (Inl err, (repoRoot, files),
                      tr1 @ [GitCommit repoRoot allChangedFiles commitMessage (Inl err)])
                 | Inr commitHash \<Rightarrow>
                     (Inr (), (repoRoot, []),
                      tr1 @ [GitCommit repoRoot allChangedFiles commitMessage (Inr commitHash)])))"

text \<open>One iteration of the loop: the \<open>catch\<close> logs the error and goes on.\<close>

definition snapshotRepo ::
  "env \<Rightarrow> string option \<Rightarrow> string \<times> string list \<Rightarrow> event list
     \<Rightarrow> (string \<times> string list) \<times> event list" where
  "snapshotRepo env message entry tr =
     (if length (snd entry) > 0 then snd (snapshotRepoTry env message entry tr)
      else (entry, tr))"

fun snapshotRepos ::
  "env \<Rightarrow> string option \<Rightarrow> (string \<times> string list) list \<Rightarrow> event list
     \<Rightarrow> (string \<times> string list) list \<times> event list" where
  "snapshotRepos env message [] tr = ([], tr)"
| "snapshotRepos env message (entry # rest) tr =
     (let r1 = snapshotRepo env message entry tr;
          r2 = snapshotRepos env message rest (snd r1)
      in (fst r1 # fst r2, snd r2))"

text \<open>
  The body of the outer \<open>try\<close>, then the \<open>finally\<close>. The result is \<open>Inl\<close> when the
  function throws to its caller.
\<close>

definition sweepBody :: "env \<Rightarrow> string option \<Rightarrow> world \<Rightarrow> (error + unit) \<times> world" where
  "sweepBody env message w =
     (let w1 = (if snapshotTimeoutId w \<noteq> None then w\<lparr>snapshotTimeoutId := None\<rparr> else w);
          r = snapshotRepos env message (pendingChangesByRepo w1) (trace w1)
      in (Inr (), w1\<lparr>pendingChangesByRepo := fst r, trace := snd r\<rparr>))"

definition createSnapshotsForPendingChanges ::
  "env \<Rightarrow> string option \<Rightarrow> world \<Rightarrow> (error + unit) \<times> world" where
  "createSnapshotsForPendingChanges env message w =
     (if commitInProgress w then (Inr (), w\<lparr>trace := trace w @ [SkipDuplicate]\<rparr>)
      else (let w1 = w\<lparr>commitInProgress := True\<rparr>;
                r = sweepBody env message w1
            in (fst r, (snd r)\<lparr>commitInProgress := False\<rparr>)))"

section \<open>Enrollment: trackFileChange (batch-operations.ts)\<close>

text \<open>
  Everything is inside one \<open>try\<close> whose \<open>catch\<close> logs and does not rethrow, so the
  function returns the state and never an error.
\<close>

definition trackFileChangeTry :: "env \<Rightarrow> path \<Rightarrow> world \<Rightarrow> (error + unit) \<times> world" where
  "trackFileChangeTry env filePath w =
     (if isGitRepository env (trace w) filePath then
        (case getRepositoryRoot env (trace w) filePath of
           Inl err \<Rightarrow> (Inl err, w)
         | Inr repoRoot \<Rightarrow>
             (let relativePath = removeFirst filePath (repoRoot @ ''/'');
                  w1 = w\<lparr>pendingChangesByRepo :=
                            addPending repoRoot relativePath (pendingChangesByRepo w),
                          lastTrackTimestamp := now w,
                          trace := trace w @ [Tracked relativePath repoRoot]\<rparr>
              in createSnapshotsForPendingChanges env (Some (''Snapshot for '' @ relativePath)) w1))
      else (Inr (), w))"

definition trackFileChange :: "env \<Rightarrow> path \<Rightarrow> world \<Rightarrow> world" where
  "trackFileChange env filePath w = snd (trackFileChangeTry env filePath w)"

section \<open>withTimeout (utils.ts)\<close>

text \<open>
  A promise, seen from its creation: it never settles, or it is fulfilled with a value or
  rejected with an error after a number of milliseconds.
\<close>

datatype 'a promise = Pending | Fulfilled nat 'a | Rejected nat error

text \<open>
  \<open>setTimeout\<close> runs its callback after the delay; a delay below 1 or above
  2147483647 is taken as 1.
\<close>

definition timerDelay :: "int \<Rightarrow> nat" where
  "timerDelay ms = (if ms < 1 \<or> ms > 2147483647 then 1 else nat ms)"

text \<open>
  The state of one call of \<open>withTimeout\<close>: the flag \<open>isCompleted\<close> and the value the
  returned promise has been resolved with. The three callbacks are the timer's, the
  \<open>then\<close> and the \<open>catch\<close> of the operation; none of them calls a \<open>reject\<close>.
\<close>

record 'a completion =
  isCompleted :: bool
  resolvedWith :: "'a option"

definition onTimeout :: "'a \<Rightarrow> 'a completion \<Rightarrow> 'a completion" where
  "onTimeout defaultValue s =
     (if \<not> isCompleted s then \<lparr>isCompleted = True, resolvedWith = Some defaultValue\<rparr> else s)"

definition onThen :: "'a \<Rightarrow> 'a completion \<Rightarrow> 'a completion" where
  "onThen result s =
     (if \<not> isCompleted s then \<lparr>isCompleted = True, resolvedWith = Some result\<rparr> else s)"

definition onCatch :: "'a \<Rightarrow> error \<Rightarrow> 'a completion \<Rightarrow> 'a completion" where
  "onCatch defaultValue err s =
     (if \<not> isCompleted s then \<lparr>isCompleted = True, resolvedWith = Some defaultValue\<rparr> else s)"

definition settledAt :: "nat \<Rightarrow> 'a completion \<Rightarrow> 'a promise" where
  "settledAt t s = (case resolvedWith s of Some v \<Rightarrow> Fulfilled t v | None \<Rightarrow> Pending)"

text \<open>
  The callbacks run in the order of their times; the returned promise settles when the
  first of them resolves it. An operation that settles before the timer clears the timer;
  after the timer has run, the callback of the operation finds \<open>isCompleted\<close> set.
  \<open>timerFirst\<close> says which callback runs first when both are due at the same time.
\<close>

definition withTimeout :: "bool \<Rightarrow> 'a promise \<Rightarrow> int \<Rightarrow> string \<Rightarrow> 'a \<Rightarrow> 'a promise" where
  "withTimeout timerFirst operation ms operationName defaultValue =
     (let d = timerDelay ms;
          s0 = \<lparr>isCompleted = False, resolvedWith = None\<rparr>
      in case operation of
           Pending \<Rightarrow> settledAt d (onTimeout defaultValue s0)
         | Fulfilled t result \<Rightarrow>
             (if t < d \<or> (t = d \<and> \<not> timerFirst) then settledAt t (onThen result s0)
              else settledAt d (onThen result (onTimeout defaultValue s0)))
         | Rejected t err \<Rightarrow>
             (if t < d \<or> (t = d \<and> \<not> timerFirst) then settledAt t (onCatch defaultValue err s0)
              else settledAt d (onCatch defaultValue err (onTimeout defaultValue s0))))"

section \<open>filesystem.ts: readFile and writeFile\<close>

text \<open>
  The file system is the map \<open>disk\<close> of the state: the content of each regular file, by
  its path. \<open>fs.stat\<close> and \<open>fs.readFile\<close> throw for a path that has no content there (no
  such file, or a directory, whose read throws whatever its \<open>stat\<close> says).
\<close>

definition fsStat :: "env \<Rightarrow> (path \<rightharpoonup> string) \<Rightarrow> path \<Rightarrow> error + nat" where
  "fsStat env d p =
     (case d p of None \<Rightarrow> Inl (Error ''ENOENT'') | Some c \<Rightarrow> Inr (byteLength env c))"

definition fsReadFile :: "(path \<rightharpoonup> string) \<Rightarrow> path \<Rightarrow> error + string" where
  "fsReadFile d p = (case d p of None \<Rightarrow> Inl (Error ''ENOENT'') | Some c \<Rightarrow> Inr c)"

definition MAX_SIZE :: nat where
  "MAX_SIZE = 500 * 1024"

definition FILE_READ_TIMEOUT :: int where
  "FILE_READ_TIMEOUT = 30000"

text \<open>
  \<open>readOperation\<close> without metadata: an image is returned in base 64; any other file is
  read as text, and read again as a buffer when that throws.
\<close>

definition readOperation :: "env \<Rightarrow> (path \<rightharpoonup> string) \<Rightarrow> path \<Rightarrow> error + string" where
  "readOperation env d validPath =
     (if isImage env validPath then
        (case fsReadFile d validPath of
           Inl err \<Rightarrow> Inl err
         | Inr buffer \<Rightarrow> Inr (base64 env buffer))
      else
        (case fsReadFile d validPath of
           Inr content \<Rightarrow> Inr content
         | Inl err1 \<Rightarrow>
             (case fsReadFile d validPath of
                Inl err \<Rightarrow> Inl err
              | Inr buffer \<Rightarrow>
                  Inr (''Binary file content (base64 encoded):'' @ newline @ base64 env buffer))))"

text \<open>
  \<open>readFileFromDisk\<close> called without \<open>returnMetadata\<close>, as the edit calls it. A file
  above \<open>MAX_SIZE\<close> is not read: the string returned is a message about its size. A
  \<open>stat\<close> that throws is ignored. The read runs under \<open>withTimeout\<close>, whose default value
  is a message too. The promise returned is seen from the call.
\<close>

definition readFileFromDisk :: "env \<Rightarrow> world \<Rightarrow> path \<Rightarrow> string promise" where
  "readFileFromDisk env w filePath =
     (let validPath = validatePath env filePath;
          tooLarge =
            (case fsStat env (disk w) validPath of
               Inr sz \<Rightarrow>
                 (if sz > MAX_SIZE
                  then Some (''File too large ('' @ toFixed2 sz 1024 @ ''KB > '' @
                             string_of_nat (MAX_SIZE div 1024) @ ''KB limit)'')
                  else None)
             | Inl err \<Rightarrow> None)
      in case tooLarge of
           Some message \<Rightarrow> Fulfilled 0 message
         | None \<Rightarrow>
             withTimeout (timerWins env)
               (case readTime env (trace w) validPath of
                  None \<Rightarrow> Pending
                | Some t \<Rightarrow>
                    (case readOperation env (disk w) validPath of
                       Inl err \<Rightarrow> Rejected t err
                     | Inr result \<Rightarrow> Fulfilled t result))
               FILE_READ_TIMEOUT (''Read file operation for '' @ filePath)
               (''Operation timed out after '' @ string_of_int (FILE_READ_TIMEOUT div 1000) @
                '' seconds''))"

text \<open>\<open>readFile\<close> without \<open>isUrl\<close>.\<close>

definition readFile :: "env \<Rightarrow> world \<Rightarrow> path \<Rightarrow> string promise" where
  "readFile env w filePath = readFileFromDisk env w filePath"

definition writeFile :: "env \<Rightarrow> path \<Rightarrow> string \<Rightarrow> world \<Rightarrow> error + world" where
  "writeFile env filePath content w =
     (let validPath = validatePath env filePath
      in case fsWriteFile env (trace w) validPath content of
           Some err \<Rightarrow> Inl err
         | None \<Rightarrow> Inr (w\<lparr>disk := (disk w)(validPath \<mapsto> content),
                            trace := trace w @ [WriteFile validPath content]\<rparr>))"

section \<open>The edit: performSearchReplace\<close>

record SearchReplace =
  search :: string
  replace :: string

record ServerResult =
  contentText :: string
  isError :: bool

text \<open>
  The first component of the result is \<open>None\<close> when the function never returns,
  \<open>Some (Inl err)\<close> when it throws.
\<close>

definition performSearchReplace ::
  "env \<Rightarrow> path \<Rightarrow> SearchReplace \<Rightarrow> world \<Rightarrow> (error + ServerResult) option \<times> world" where
  "performSearchReplace env filePath block w =
     (case readFile env w filePath of
        Pending \<Rightarrow> (None, w)
      | Rejected t err \<Rightarrow> (Some (Inl err), w)
      | Fulfilled t contentStr \<Rightarrow>
          (let searchIndex = indexOf contentStr (search block)
           in if searchIndex = - 1 then
                (Some (Inr \<lparr>contentText = ''Search content not found in '' @ filePath @
                               ''. The file may have been modified since Claude last saw it.'',
                            isError = True\<rparr>), w)
              else
                (let w1 = trackFileChange env filePath w;
                     newContent =
                       substring contentStr 0 searchIndex @ replace block @
                       substringFrom contentStr (searchIndex + int (length (search block)))
                 in case writeFile env filePath newContent w1 of
                      Inl err \<Rightarrow> (Some (Inl err), w1)
                    | Inr w2 \<Rightarrow>
                        (Some (Inr \<lparr>contentText = ''Successfully applied edit to '' @ filePath,
                                    isError = False\<rparr>), w2))))"

section \<open>Reading the trace\<close>

text \<open>
  The events a run has added to the trace, and what they say: the repository an adapter
  call is about, whether a list of events holds a status query of a repository, a commit
  call of a repository, a commit of a repository that returned, a write.
\<close>

definition newEvents :: "world \<Rightarrow> world \<Rightarrow> event list" where
  "newEvents w w' = drop (length (trace w)) (trace w')"

fun eventRepo :: "event \<Rightarrow> string option" where
  "eventRepo (GitStatus r out) = Some r"
| "eventRepo (GitCommit r fs m out) = Some r"
| "eventRepo e = None"

fun isStatusOf :: "string \<Rightarrow> event \<Rightarrow> bool" where
  "isStatusOf r (GitStatus r' out) = (r' = r)"
| "isStatusOf r e = False"


fun isCommitOf :: "string \<Rightarrow> event \<Rightarrow> bool" where
  "isCommitOf r (GitCommit r' fs m (Inr h)) = (r' = r)"
| "isCommitOf r e = False"

fun isWrite :: "event \<Rightarrow> bool" where
  "isWrite (WriteFile p c) = True"
| "isWrite e = False"

definition queried :: "string \<Rightarrow> event list \<Rightarrow> bool" where
  "queried r evs = list_ex (isStatusOf r) evs"

definition committed :: "string \<Rightarrow> event list \<Rightarrow> bool" where
  "committed r evs = list_ex (isCommitOf r) evs"

section \<open>Concrete inputs\<close>

text \<open>
  A repository \<open>/repo\<close> with the file \<open>a.txt\<close>; every adapter call succeeds and the
  status reports \<open>a.txt\<close> as modified. A file has one byte for each character, none is
  an image, and a read takes a millisecond.
\<close>

definition envA :: env where
  "envA = \<lparr>revparse = (\<lambda>tr p args. Inr ''/repo''),
            checkout = (\<lambda>tr p args. Inr ()),
            gitLog = (\<lambda>tr p args. Inr []),
            revert = (\<lambda>tr p h. Inr ()),
            reset = (\<lambda>tr p args. Inr ()),
            jsonParse = (\<lambda>s. Inl (Error ''SyntaxError'')),
            getGitStatus = (\<lambda>tr r. Inr \<lparr>modified = [''a.txt''], not_added = [], staged = []\<rparr>),
            commitChanges = (\<lambda>tr r fs m. Inr ''c0ffee1''),
            validatePath = (\<lambda>p. p),
            byteLength = length,
            isImage = (\<lambda>p. False),
            base64 = (\<lambda>s. s),
            readTime = (\<lambda>tr p. Some 1),
            timerWins = True,
            fsWriteFile = (\<lambda>tr p c. None)\<rparr>"

definition worldA :: "string \<Rightarrow> world" where
  "worldA content =
     \<lparr>disk = [''/repo/a.txt'' \<mapsto> content], pendingChangesByRepo = [],
      lastTrackTimestamp = 0, commitInProgress = False, snapshotTimeoutId = None,
      now = 7, trace = []\<rparr>"

text \<open>
  In \<open>envR\<close> the git client runs in the directory \<open>/repo\<close> only: started with any other
  working directory, a regular file such as \<open>/repo/a.txt\<close> among them, it throws.
  \<open>worldL\<close> has the file \<open>/repo/big.log\<close> of 614400 bytes, which is 600KB, all of them
  the letter \<open>x\<close>.
\<close>

definition envR :: env where
  "envR = envA\<lparr>revparse := (\<lambda>tr p args. if p = ''/repo'' then Inr ''/repo''
                                         else Inl (Error ''spawn ENOTDIR''))\<rparr>"

definition bigContent :: string where
  "bigContent = replicate 614400 (CHR ''x'')"

definition worldL :: world where
  "worldL =
     \<lparr>disk = [''/repo/big.log'' \<mapsto> bigContent], pendingChangesByRepo = [],
      lastTrackTimestamp = 0, commitInProgress = False, snapshotTimeoutId = None,
      now = 7, trace = []\<rparr>"

text \<open>
  Three repositories with one pending file each: the status of \<open>/repo3\<close> throws, the
  commit of \<open>/repo1\<close> throws, and the status of the others reports nothing. In \<open>envC\<close>
  the status reports \<open>b.txt\<close> and not the tracked \<open>a.txt\<close>.
\<close>

definition envB :: env where
  "envB = envA\<lparr>getGitStatus := (\<lambda>tr r. if r = ''/repo3'' then Inl (Error ''status failed'')
                                          else Inr \<lparr>modified = [], not_added = [], staged = []\<rparr>),
                 commitChanges := (\<lambda>tr r fs m. if r = ''/repo1'' then Inl (Error ''nothing to commit'')
                                               else Inr ''beef002'')\<rparr>"

definition worldB :: world where
  "worldB =
     \<lparr>disk = Map.empty,
      pendingChangesByRepo = [(''/repo1'', [''a.txt'']), (''/repo2'', [''b.txt'']), (''/repo3'', [''c.txt''])],
      lastTrackTimestamp = 0, commitInProgress = False, snapshotTimeoutId = None,
      now = 0, trace = []\<rparr>"

definition envC :: env where
  "envC = envA\<lparr>getGitStatus := (\<lambda>tr r. Inr \<lparr>modified = [''b.txt''], not_added = [], staged = []\<rparr>)\<rparr>"

section \<open>handleSearchCode (edit-search-handlers.ts)\<close>

record SearchResult =
  resultFile :: string
  resultLine :: nat
  resultMatch :: string

text \<open>The \<open>forEach\<close> that formats the results, with its two variables.\<close>

fun formatLoop :: "string \<Rightarrow> string \<Rightarrow> SearchResult list \<Rightarrow> string" where
  "formatLoop currentFile formattedResults [] = formattedResults"
| "formatLoop currentFile formattedResults (result # rest) =
     (if resultFile result \<noteq> currentFile then
        formatLoop (resultFile result)
          ((formattedResults @ newline @ resultFile result @ '':'' @ newline) @
           ''  '' @ string_of_nat (resultLine result) @ '': '' @ resultMatch result @ newline) rest
      else
        formatLoop currentFile
          (formattedResults @
           ''  '' @ string_of_nat (resultLine result) @ '': '' @ resultMatch result @ newline) rest)"

text \<open>
  The arguments are the parsed ones; of them only \<open>timeoutMs\<close> is read by the handler
  itself, the others go to the search. \<open>searchOperation\<close> is the promise of the search,
  \<open>currentSearchProcess\<close> the process id stored in the global of that name, and
  \<open>killThrows\<close> says whether killing it throws. The first component of the result is
  \<open>None\<close> when the handler never returns, \<open>Some (Inl err)\<close> when it throws.
\<close>

definition handleSearchCode ::
  "bool \<Rightarrow> SearchResult list promise \<Rightarrow> int option \<Rightarrow> nat option \<Rightarrow> bool
     \<Rightarrow> (error + ServerResult) option \<times> nat option" where
  "handleSearchCode timerFirst searchOperation parsedTimeoutMs currentSearchProcess killThrows =
     (let ms = (case parsedTimeoutMs of None \<Rightarrow> 30000 | Some t \<Rightarrow> if t = 0 then 30000 else t)
      in case withTimeout timerFirst searchOperation ms ''Code search operation'' [] of
           Pending \<Rightarrow> (None, currentSearchProcess)
         | Rejected t err \<Rightarrow> (Some (Inl err), currentSearchProcess)
         | Fulfilled t results \<Rightarrow>
             (let process' =
                    (if length results = 0 \<and> currentSearchProcess \<noteq> None
                     then (if killThrows then currentSearchProcess else None)
                     else currentSearchProcess)
              in if length results = 0 then
                   (if ms > 0 then
                      (Some (Inr \<lparr>contentText = ''No matches found or search timed out after '' @
                                                string_of_int ms @ ''ms.'',
                                  isError = False\<rparr>), process')
                    else (Some (Inr \<lparr>contentText = ''No matches found'', isError = False\<rparr>), process'))
                 else
                   (Some (Inr \<lparr>contentText = trim (formatLoop [] [] results), isError = False\<rparr>),
                    process')))"

text \<open>
  In \<open>envD\<close> the file is in the repository \<open>/repo\<close>, and the log, the checkout and the
  revert throw.
\<close>

definition envD :: env where
  "envD = envA\<lparr>gitLog := (\<lambda>tr p args. Inl (Error ''fatal: bad revision'')),
                 checkout := (\<lambda>tr p args. Inl (Error ''error: pathspec'')),
                 revert := (\<lambda>tr p h. Inl (Error ''error: could not revert''))\<rparr>"

section \<open>Interleaved calls\<close>

text \<open>
  The functions of batch-operations.ts are \<open>async\<close>: a call runs without interruption
  up to its next \<open>await\<close>, and between two of its \<open>await\<close>s any other call may run.
  A task is a call suspended at an \<open>await\<close>, with the local variables it still needs:
  \<^item> \<open>SweepCall message\<close>: \<open>createSnapshotsForPendingChanges(message)\<close> is about to
    be called;
  \<^item> \<open>TrackIsRepo filePath\<close>, \<open>TrackRoot filePath\<close>: \<open>trackFileChange\<close> waits for
    \<open>isGitRepository\<close>, for \<open>getRepositoryRoot\<close>;
  \<^item> \<open>AwaitStatus message rest repoRoot fileArray commitMessage\<close>: the loop of the sweep
    waits for \<open>getGitStatus(repoRoot)\<close>; \<open>rest\<close> are the keys of the entries still to
    visit (the entries were listed when the loop began; each \<open>Set\<close> is the object
    stored under its key, read when the loop reaches it);
  \<^item> \<open>AwaitCommit message rest repoRoot allChangedFiles commitMessage\<close>: it waits for
    \<open>commitChanges\<close>;
  \<^item> \<open>EditRead filePath block\<close>: \<open>performSearchReplace\<close> waits for \<open>readFile\<close>;
  \<^item> \<open>Editing t filePath newContent\<close>: it waits for \<open>trackFileChange(filePath)\<close>,
    the call \<open>t\<close>, and will then write \<open>newContent\<close>;
  \<^item> \<open>Finished\<close>: the call has returned.
\<close>

datatype task =
    SweepCall "string option"
  | TrackIsRepo path
  | TrackRoot path
  | AwaitStatus "string option" "string list" string "string list" string
  | AwaitCommit "string option" "string list" string "string list" string
  | EditRead path SearchReplace
  | Editing task path string
  | Finished

definition filesOf :: "string \<Rightarrow> (string \<times> string list) list \<Rightarrow> string list" where
  "filesOf repoRoot pending = (case map_of pending repoRoot of Some files \<Rightarrow> files | None \<Rightarrow> [])"

text \<open>\<open>files.clear()\<close> on the set stored under \<open>repoRoot\<close>.\<close>

definition clearFiles :: "string \<Rightarrow> (string \<times> string list) list \<Rightarrow> (string \<times> string list) list" where
  "clearFiles repoRoot pending =
     map (\<lambda>entry. if fst entry = repoRoot then (fst entry, []) else entry) pending"

text \<open>
  The loop from its next entry on, up to the next \<open>await\<close>; after the last entry the
  \<open>finally\<close> resets the flag.
\<close>

fun nextRepo :: "string option \<Rightarrow> string list \<Rightarrow> world \<Rightarrow> task \<times> world" where
  "nextRepo message [] w = (Finished, w\<lparr>commitInProgress := False\<rparr>)"
| "nextRepo message (repoRoot # rest) w =
     (let files = filesOf repoRoot (pendingChangesByRepo w)
      in if length files > 0
         then (AwaitStatus message rest repoRoot files (commitMessageFor message files), w)
         else nextRepo message rest w)"

definition startSweep :: "string option \<Rightarrow> world \<Rightarrow> task \<times> world" where
  "startSweep message w =
     (if commitInProgress w then (Finished, w\<lparr>trace := trace w @ [SkipDuplicate]\<rparr>)
      else (let w1 = w\<lparr>commitInProgress := True\<rparr>;
                w2 = (if snapshotTimeoutId w1 \<noteq> None then w1\<lparr>snapshotTimeoutId := None\<rparr> else w1)
            in nextRepo message (map fst (pendingChangesByRepo w2)) w2))"

fun stepTask :: "env \<Rightarrow> task \<Rightarrow> world \<Rightarrow> task \<times> world" where
  "stepTask env (SweepCall message) w = startSweep message w"
| "stepTask env (TrackIsRepo filePath) w =
     (if isGitRepository env (trace w) filePath then (TrackRoot filePath, w) else (Finished, w))"
| "stepTask env (TrackRoot filePath) w =
     (case getRepositoryRoot env (trace w) filePath of
        Inl err \<Rightarrow> (Finished, w)
      | Inr repoRoot \<Rightarrow>
          (let relativePath = removeFirst filePath (repoRoot @ ''/'');
               w1 = w\<lparr>pendingChangesByRepo :=
                         addPending repoRoot relativePath (pendingChangesByRepo w),
                       lastTrackTimestamp := now w,
                       trace := trace w @ [Tracked relativePath repoRoot]\<rparr>
           in startSweep (Some (''Snapshot for '' @ relativePath)) w1))"
| "stepTask env (AwaitStatus message rest repoRoot fileArray commitMessage) w =
     (case getGitStatus env (trace w) repoRoot of
        Inl err \<Rightarrow> nextRepo message rest (w\<lparr>trace := trace w @ [GitStatus repoRoot (Inl err)]\<rparr>)
      | Inr status \<Rightarrow>
          (AwaitCommit message rest repoRoot (filesToCommit status fileArray) commitMessage,
           w\<lparr>trace := trace w @ [GitStatus repoRoot (Inr status)]\<rparr>))"
| "stepTask env (AwaitCommit message rest repoRoot allChangedFiles commitMessage) w =
     (case commitChanges env (trace w) repoRoot allChangedFiles commitMessage of
        Inl err \<Rightarrow>
          nextRepo message rest
            (w\<lparr>trace := trace w @ [GitCommit repoRoot allChangedFiles commitMessage (Inl err)]\<rparr>)
      | Inr commitHash \<Rightarrow>
          nextRepo message rest
            (w\<lparr>pendingChangesByRepo := clearFiles repoRoot (pendingChangesByRepo w),
               trace := trace w @ [GitCommit repoRoot allChangedFiles commitMessage (Inr commitHash)]\<rparr>))"
| "stepTask env (EditRead filePath block) w =
     (case readFile env w filePath of
        Pending \<Rightarrow> (EditRead filePath block, w)
      | Rejected t err \<Rightarrow> (Finished, w)
      | Fulfilled t contentStr \<Rightarrow>
          (let searchIndex = indexOf contentStr (search block)
           in if searchIndex = - 1 then (Finished, w)
              else (Editing (TrackIsRepo filePath) filePath
                      (substring contentStr 0 searchIndex @ replace block @
                       substringFrom contentStr (searchIndex + int (length (search block)))), w)))"
| "stepTask env (Editing t filePath newContent) w =
     (if t = Finished
      then (case writeFile env filePath newContent w of
              Inl err \<Rightarrow> (Finished, w)
            | Inr w' \<Rightarrow> (Finished, w'))
      else (let r = stepTask env t w in (Editing (fst r) filePath newContent, snd r)))"
| "stepTask env Finished w = (Finished, w)"

text \<open>
  A configuration is the tasks and the module state they share. A schedule names, step by
  step, the task that runs next.
\<close>

definition stepAt :: "env \<Rightarrow> nat \<Rightarrow> task list \<times> world \<Rightarrow> task list \<times> world" where
  "stepAt env i c =
     (if i < length (fst c)
      then (let r = stepTask env (fst c ! i) (snd c) in ((fst c)[i := fst r], snd r))
      else c)"

fun run :: "env \<Rightarrow> nat list \<Rightarrow> task list \<times> world \<Rightarrow> task list \<times> world" where
  "run env [] c = c"
| "run env (i # schedule) c = run env schedule (stepAt env i c)"

text \<open>
  A sweep is executing when its task is inside the loop. \<open>singleFlight\<close>: the flag is set
  exactly when one sweep is executing, and never more than one is.
\<close>

fun sweeping :: "task \<Rightarrow> bool" where
  "sweeping (AwaitStatus message rest repoRoot fileArray commitMessage) = True"
| "sweeping (AwaitCommit message rest repoRoot allChangedFiles commitMessage) = True"
| "sweeping (Editing t filePath newContent) = sweeping t"
| "sweeping t = False"

definition singleFlight :: "task list \<times> world \<Rightarrow> bool" where
  "singleFlight c = (length (filter sweeping (fst c)) = (if commitInProgress (snd c) then 1 else 0))"

fun isCommitCall :: "event \<Rightarrow> bool" where
  "isCommitCall (GitCommit r fs m out) = True"
| "isCommitCall e = False"

text \<open>
  One file \<open>a.txt\<close> is pending in \<open>/repo\<close> and no sweep is running; \<open>twoTriggers\<close> are
  two calls of the sweep made at the same time.
\<close>

definition worldE :: world where
  "worldE =
     \<lparr>disk = Map.empty, pendingChangesByRepo = [(''/repo'', [''a.txt''])],
      lastTrackTimestamp = 0, commitInProgress = False, snapshotTimeoutId = None,
      now = 0, trace = []\<rparr>"

definition twoTriggers :: "task list" where
  "twoTriggers = [SweepCall None, SweepCall None]"

text \<open>
  The invariant of any number of sweep calls over one pending file \<open>f\<close> of one repository
  \<open>r\<close>. A task inside the loop is at the entry of \<open>r\<close> with nothing left to visit, and
  no commit has been called yet; and either the file is still pending and no commit has
  been called, or the set is empty, no sweep is running and the commit was called once,
  with the files computed from a status that was queried, and returned.
\<close>

definition legalTask :: "string \<Rightarrow> string \<Rightarrow> world \<Rightarrow> task \<Rightarrow> bool" where
  "legalTask r f w t =
     (case t of
        SweepCall message \<Rightarrow> True
      | Finished \<Rightarrow> True
      | AwaitStatus message rest repoRoot fileArray commitMessage \<Rightarrow>
          rest = [] \<and> repoRoot = r \<and> fileArray = [f] \<and>
          pendingChangesByRepo w = [(r, [f])] \<and> \<not> list_ex isCommitCall (trace w)
      | AwaitCommit message rest repoRoot allChangedFiles commitMessage \<Rightarrow>
          rest = [] \<and> repoRoot = r \<and>
          pendingChangesByRepo w = [(r, [f])] \<and> \<not> list_ex isCommitCall (trace w) \<and>
          (\<exists>st. allChangedFiles = filesToCommit st [f] \<and> GitStatus r (Inr st) \<in> set (trace w))
      | TrackIsRepo p \<Rightarrow> False
      | TrackRoot p \<Rightarrow> False
      | EditRead p block \<Rightarrow> False
      | Editing t' p c \<Rightarrow> False)"

definition committedOnce :: "string \<Rightarrow> string \<Rightarrow> world \<Rightarrow> bool" where
  "committedOnce r f w =
     (\<exists>st cm h. filter isCommitCall (trace w) = [GitCommit r (filesToCommit st [f]) cm (Inr h)] \<and>
                GitStatus r (Inr st) \<in> set (trace w))"

definition oneFileInv :: "string \<Rightarrow> string \<Rightarrow> task list \<times> world \<Rightarrow> bool" where
  "oneFileInv r f c =
     (singleFlight c \<and> (\<forall>t \<in> set (fst c). legalTask r f (snd c) t) \<and>
      ((pendingChangesByRepo (snd c) = [(r, [f])] \<and> \<not> list_ex isCommitCall (trace (snd c)) \<and>
        (\<not> commitInProgress (snd c) \<longrightarrow> (\<forall>t \<in> set (fst c). \<exists>message. t = SweepCall message))) \<or>
       (pendingChangesByRepo (snd c) = [(r, [])] \<and> \<not> commitInProgress (snd c) \<and>
        committedOnce r f (snd c))))"

text \<open>
  In \<open>envE\<close> the status reports nothing, so that the tracked files are committed;
  \<open>sweepAndEnroll\<close> is a sweep together with the enrollment of \<open>b.txt\<close>.
\<close>

definition envE :: env where
  "envE = envA\<lparr>getGitStatus := (\<lambda>tr r. Inr \<lparr>modified = [], not_added = [], staged = []\<rparr>)\<rparr>"

definition sweepAndEnroll :: "task list" where
  "sweepAndEnroll = [SweepCall None, TrackIsRepo ''/repo/b.txt'']"

section \<open>The debounced tracker\<close>

text \<open>
  The other copy of the batch-operations module does not sweep at each enrollment: it
  schedules the sweep. Its functions carry the suffix \<open>_debounced\<close> where they differ
  from those above; its sweep commits the tracked files without a status query.
  \<open>DEFAULT_BATCH_TIMEOUT\<close> is 15000 there (5000 in the copy above, which never calls
  \<open>scheduleSnapshotCreation\<close>); the functions below take it as the parameter
  \<open>batchTimeout\<close>.
\<close>

definition DEFAULT_BATCH_TIMEOUT :: nat where
  "DEFAULT_BATCH_TIMEOUT = 15000"

definition commitMessageFor_debounced :: "string option \<Rightarrow> string list \<Rightarrow> string" where
  "commitMessageFor_debounced message fileArray =
     orElse message
       (if length fileArray = 1 then ''Snapshot before editing '' @ fileArray ! 0
        else ''Snapshot before editing '' @ string_of_nat (length fileArray) @ '' files'')"

definition snapshotRepoTry_debounced ::
  "env \<Rightarrow> string option \<Rightarrow> string \<times> string list \<Rightarrow> event list
     \<Rightarrow> (error + unit) \<times> (string \<times> string list) \<times> event list" where
  "snapshotRepoTry_debounced env message entry tr =
     (let repoRoot = fst entry; files = snd entry;
          fileArray = files;
          commitMessage = commitMessageFor_debounced message fileArray
      in case commitChanges env tr repoRoot fileArray commitMessage of
           Inl err \<Rightarrow>
             (Inl err, (repoRoot, files), tr @ [GitCommit repoRoot fileArray commitMessage (Inl err)])
         | Inr commitHash \<Rightarrow>
             (Inr (), (repoRoot, []),
              tr @ [GitCommit repoRoot fileArray commitMessage (Inr commitHash)]))"

definition snapshotRepo_debounced ::
  "env \<Rightarrow> string option \<Rightarrow> string \<times> string list \<Rightarrow> event list
     \<Rightarrow> (string \<times> string list) \<times> event list" where
  "snapshotRepo_debounced env message entry tr =
     (if length (snd entry) > 0 then snd (snapshotRepoTry_debounced env message entry tr)
      else (entry, tr))"

fun snapshotRepos_debounced ::
  "env \<Rightarrow> string option \<Rightarrow> (string \<times> string list) list \<Rightarrow> event list
     \<Rightarrow> (string \<times> string list) list \<times> event list" where
  "snapshotRepos_debounced env message [] tr = ([], tr)"
| "snapshotRepos_debounced env message (entry # rest) tr =
     (let r1 = snapshotRepo_debounced env message entry tr;
          r2 = snapshotRepos_debounced env message rest (snd r1)
      in (fst r1 # fst r2, snd r2))"

definition createSnapshotsForPendingChanges_debounced ::
  "env \<Rightarrow> string option \<Rightarrow> world \<Rightarrow> (error + unit) \<times> world" where
  "createSnapshotsForPendingChanges_debounced env message w =
     (if commitInProgress w then (Inr (), w\<lparr>trace := trace w @ [SkipDuplicate]\<rparr>)
      else (let w1 = w\<lparr>commitInProgress := True\<rparr>;
                w2 = (if snapshotTimeoutId w1 \<noteq> None then w1\<lparr>snapshotTimeoutId := None\<rparr> else w1);
                r = snapshotRepos_debounced env message (pendingChangesByRepo w2) (trace w2)
            in (Inr (), w2\<lparr>pendingChangesByRepo := fst r, trace := snd r,
                            commitInProgress := False\<rparr>)))"

text \<open>
  \<open>scheduleSnapshotCreation\<close> clears the timer of the handle and sets a new one, whose
  handle it stores: the timer that was there is no longer armed.
\<close>

definition scheduleSnapshotCreation :: "nat \<Rightarrow> world \<Rightarrow> world" where
  "scheduleSnapshotCreation timeoutMs w =
     w\<lparr>snapshotTimeoutId :=
         Some \<lparr>fireAt = now w + timerDelay (int timeoutMs), window = timeoutMs, armed = True\<rparr>\<rparr>"

text \<open>
  The callback of the timer, with the \<open>timeoutMs\<close> it has captured; it reschedules with
  the default.
\<close>

definition timerCallback :: "nat \<Rightarrow> env \<Rightarrow> nat \<Rightarrow> world \<Rightarrow> world" where
  "timerCallback batchTimeout env timeoutMs w =
     (let timeSinceLastTrack = int (now w) - int (lastTrackTimestamp w)
      in if timeSinceLastTrack \<ge> int timeoutMs
         then snd (createSnapshotsForPendingChanges_debounced env
                     (Some ''Auto-snapshot after inactivity period'')
                     (w\<lparr>trace := trace w @ [AutoSnapshot (now w) timeoutMs]\<rparr>))
         else scheduleSnapshotCreation batchTimeout w)"

definition trackFileChangeTry_debounced ::
  "nat \<Rightarrow> env \<Rightarrow> path \<Rightarrow> world \<Rightarrow> (error + unit) \<times> world" where
  "trackFileChangeTry_debounced batchTimeout env filePath w =
     (if isGitRepository env (trace w) filePath then
        (case getRepositoryRoot env (trace w) filePath of
           Inl err \<Rightarrow> (Inl err, w)
         | Inr repoRoot \<Rightarrow>
             (let relativePath = removeFirst filePath (repoRoot @ ''/'');
                  w1 = w\<lparr>pendingChangesByRepo :=
                            addPending repoRoot relativePath (pendingChangesByRepo w),
                          lastTrackTimestamp := now w,
                          trace := trace w @ [Tracked relativePath repoRoot]\<rparr>
              in (Inr (), if \<not> commitInProgress w1 then scheduleSnapshotCreation batchTimeout w1
                          else w1)))
      else (Inr (), w))"

definition trackFileChange_debounced :: "nat \<Rightarrow> env \<Rightarrow> path \<Rightarrow> world \<Rightarrow> world" where
  "trackFileChange_debounced batchTimeout env filePath w =
     snd (trackFileChangeTry_debounced batchTimeout env filePath w)"

text \<open>
  Time. An armed timer fires at its time: the clock is then at that time, the timer is no
  longer armed, and its callback runs. \<open>runTimers\<close> fires the timers that are due by the
  time \<open>until\<close> (all of them when \<open>until\<close> is \<open>None\<close>), at most \<open>fuel\<close> of them.
  \<open>simulate\<close> runs enrollments made at given times, the timers due before each firing
  first, and then the timers left. A sweep takes no time here: no enrollment falls
  inside one.
\<close>

definition fireTimer :: "nat \<Rightarrow> env \<Rightarrow> world \<Rightarrow> world" where
  "fireTimer batchTimeout env w =
     (case snapshotTimeoutId w of
        None \<Rightarrow> w
      | Some tm \<Rightarrow>
          if armed tm
          then timerCallback batchTimeout env (window tm)
                 (w\<lparr>now := max (now w) (fireAt tm), snapshotTimeoutId := Some (tm\<lparr>armed := False\<rparr>)\<rparr>)
          else w)"

definition timerDue :: "nat option \<Rightarrow> world \<Rightarrow> bool" where
  "timerDue until w =
     (case snapshotTimeoutId w of
        None \<Rightarrow> False
      | Some tm \<Rightarrow> armed tm \<and> (case until of None \<Rightarrow> True | Some t \<Rightarrow> fireAt tm \<le> t))"

fun runTimers :: "nat \<Rightarrow> nat \<Rightarrow> env \<Rightarrow> nat option \<Rightarrow> world \<Rightarrow> world" where
  "runTimers 0 batchTimeout env until w = w"
| "runTimers (Suc fuel) batchTimeout env until w =
     (if timerDue until w then runTimers fuel batchTimeout env until (fireTimer batchTimeout env w)
      else w)"

fun simulate :: "nat \<Rightarrow> nat \<Rightarrow> env \<Rightarrow> (nat \<times> path) list \<Rightarrow> world \<Rightarrow> world" where
  "simulate fuel batchTimeout env [] w = runTimers fuel batchTimeout env None w"
| "simulate fuel batchTimeout env (enrollment # rest) w =
     simulate fuel batchTimeout env rest
       (trackFileChange_debounced batchTimeout env (snd enrollment)
          ((runTimers fuel batchTimeout env (Some (fst enrollment)) w)
             \<lparr>now := max (now w) (fst enrollment)\<rparr>))"

fun isAutoSnapshot :: "event \<Rightarrow> bool" where
  "isAutoSnapshot (AutoSnapshot t ms) = True"
| "isAutoSnapshot e = False"

text \<open>Times that do not decrease and are less than the window apart.\<close>

fun closeTogether :: "nat \<Rightarrow> nat list \<Rightarrow> bool" where
  "closeTogether d [] = True"
| "closeTogether d [t] = True"
| "closeTogether d (t # t' # ts) = (t \<le> t' \<and> t' < t + d \<and> closeTogether d (t' # ts))"

text \<open>The state right after an enrollment at time \<open>t\<close> that found no sweep in progress.\<close>

definition armedAt :: "nat \<Rightarrow> nat \<Rightarrow> world \<Rightarrow> bool" where
  "armedAt d t w =
     (lastTrackTimestamp w = t \<and> now w = t \<and> \<not> commitInProgress w \<and>
      snapshotTimeoutId w = Some \<lparr>fireAt = t + d, window = d, armed = True\<rparr>)"

text \<open>
  An idle state with nothing pending at time 0, and three enrollments of \<open>a.txt\<close> at
  0, 50 and 100 milliseconds.
\<close>

definition worldF :: world where
  "worldF =
     \<lparr>disk = Map.empty, pendingChangesByRepo = [],
      lastTrackTimestamp = 0, commitInProgress = False, snapshotTimeoutId = None,
      now = 0, trace = []\<rparr>"

definition threeEnrollments :: "(nat \<times> path) list" where
  "threeEnrollments = [(0, ''/repo/a.txt''), (50, ''/repo/a.txt''), (100, ''/repo/a.txt'')]"

section \<open>Proofs\<close>

subsection \<open>Strings\<close>

lemma indexOf_ge: "- 1 \<le> indexOf c s"
  by (induction c) (auto simp: Let_def)

lemma indexOf_prefix: "prefix s c \<Longrightarrow> indexOf c s = 0"
  by (cases c) auto

lemma indexOf_found:
  "indexOf c s \<noteq> - 1 \<Longrightarrow>
     \<exists>pre suf. c = pre @ s @ suf \<and> indexOf c s = int (length pre)
        \<and> (\<forall>j < length pre. \<not> prefix s (drop j c))"
proof (induction c)
  case Nil
  then show ?case by (auto split: if_splits)
next
  case (Cons a c)
  show ?case
  proof (cases "prefix s (a # c)")
    case True
    then obtain suf where e: "a # c = s @ suf" by (auto simp: prefix_def)
    have i: "indexOf (a # c) s = 0" using True by (rule indexOf_prefix)
    show ?thesis
      by (rule exI[of _ "[]"], rule exI[of _ suf]) (use e i in simp)
  next
    case False
    with Cons.prems have ne: "indexOf c s \<noteq> - 1" by (auto simp: Let_def split: if_splits)
    from Cons.IH[OF ne] obtain pre suf where
      h: "c = pre @ s @ suf" "indexOf c s = int (length pre)"
         "\<forall>j < length pre. \<not> prefix s (drop j c)" by blast
    have "\<forall>j < length (a # pre). \<not> prefix s (drop j (a # c))"
    proof (intro allI impI)
      fix j assume "j < length (a # pre)"
      then show "\<not> prefix s (drop j (a # c))"
        using False h(3) by (cases j) auto
    qed
    with h False ne show ?thesis
      by (intro exI[of _ "a # pre"] exI[of _ suf]) (simp add: Let_def)
  qed
qed

lemma indexOf_first:
  "\<forall>j < length pre. \<not> prefix s (drop j (pre @ s @ suf)) \<Longrightarrow>
     indexOf (pre @ s @ suf) s = int (length pre)"
proof (induction pre)
  case Nil
  then show ?case by (simp add: indexOf_prefix)
next
  case (Cons a pre)
  from Cons.prems have np: "\<not> prefix s (a # pre @ s @ suf)"
    by (metis append_Cons drop0 length_greater_0_conv list.distinct(1))
  from Cons.prems have "\<forall>j < length pre. \<not> prefix s (drop j (pre @ s @ suf))"
    by (metis Suc_less_eq append_Cons drop_Suc_Cons length_Cons)
  from Cons.IH[OF this] np show ?case by (simp add: Let_def)
qed

lemma indexOf_absent: "indexOf c s = - 1 \<longleftrightarrow> \<not> (\<exists>pre suf. c = pre @ s @ suf)"
proof
  assume a: "indexOf c s = - 1"
  show "\<not> (\<exists>pre suf. c = pre @ s @ suf)"
  proof
    assume "\<exists>pre suf. c = pre @ s @ suf"
    then obtain pre suf where c: "c = pre @ s @ suf" by blast
    from a c show False
    proof (induction pre arbitrary: c)
      case Nil
      then show ?case by (simp add: indexOf_prefix)
    next
      case (Cons x pre)
      then show ?case
        using indexOf_ge[of "pre @ s @ suf" s] by (auto split: if_splits simp: Let_def)
    qed
  qed
next
  assume "\<not> (\<exists>pre suf. c = pre @ s @ suf)"
  then show "indexOf c s = - 1"
    using indexOf_found[of c s] by blast
qed

lemma substring_take: "substring (pre @ s @ suf) 0 (int (length pre)) = pre"
  by (simp add: substring_def clampIndex_def Let_def)

lemma substringFrom_drop:
  "substringFrom (pre @ s @ suf) (int (length pre) + int (length s)) = suf"
  by (simp add: substringFrom_def clampIndex_def)

lemma uniq_set [simp]: "set (uniq xs) = set xs"
  by (induction xs) auto

lemma uniq_distinct [simp]: "distinct (uniq xs)"
  by (induction xs) (auto simp: distinct_removeAll)

lemma uniq_Nil [simp]: "uniq xs = [] \<longleftrightarrow> xs = []"
  by (cases xs) auto

lemma filesToCommit_eq:
  "filesToCommit st files =
     (if modified st @ not_added st @ staged st = [] then files
      else uniq (modified st @ not_added st @ staged st))"
  by (simp add: filesToCommit_def Let_def)

lemmas eval_defs = isGitRepository_def getRepositoryRoot_def trim_def isSpace_def
  createSnapshotsForPendingChanges_def sweepBody_def snapshotRepo_def
  snapshotRepoTry_def filesToCommit_def commitMessageFor_def orElse_def Let_def
  trackFileChange_def trackFileChangeTry_def removeFirst_def setAdd_def
  performSearchReplace_def writeFile_def substring_def substringFrom_def clampIndex_def


subsection \<open>The trace of a sweep\<close>

lemma snapshotRepoTry_shape:
  "\<exists>evs. snd (snd (snapshotRepoTry env m (r, fs) tr)) = tr @ evs \<and>
         (\<forall>e \<in> set evs. eventRepo e = Some r) \<and>
         fst (fst (snd (snapshotRepoTry env m (r, fs) tr))) = r"
  by (auto simp: snapshotRepoTry_def Let_def split: sum.splits)

lemma snapshotRepo_shape:
  "\<exists>evs. snd (snapshotRepo env m (r, fs) tr) = tr @ evs \<and>
         (\<forall>e \<in> set evs. eventRepo e = Some r) \<and>
         fst (fst (snapshotRepo env m (r, fs) tr)) = r"
  using snapshotRepoTry_shape[of env m r fs tr]
  by (auto simp: snapshotRepo_def)

lemma snapshotRepos_keys: "map fst (fst (snapshotRepos env m es tr)) = map fst es"
proof (induction es arbitrary: tr)
  case Nil show ?case by simp
next
  case (Cons e es)
  obtain r fs where e: "e = (r, fs)" by (cases e)
  show ?case using snapshotRepo_shape[of env m r fs tr] Cons.IH
    by (auto simp: Let_def e)
qed

lemma snapshotRepos_trace:
  "\<exists>evs. snd (snapshotRepos env m es tr) = tr @ evs \<and>
         (\<forall>e \<in> set evs. \<exists>r \<in> fst ` set es. eventRepo e = Some r)"
proof (induction es arbitrary: tr)
  case Nil show ?case by simp
next
  case (Cons e es)
  obtain r fs where e: "e = (r, fs)" by (cases e)
  from snapshotRepo_shape[of env m r fs tr] obtain evs1 where
    1: "snd (snapshotRepo env m (r, fs) tr) = tr @ evs1" "\<forall>e \<in> set evs1. eventRepo e = Some r"
    by blast
  from Cons.IH[of "tr @ evs1"] obtain evs2 where
    2: "snd (snapshotRepos env m es (tr @ evs1)) = (tr @ evs1) @ evs2"
       "\<forall>e \<in> set evs2. \<exists>r \<in> fst ` set es. eventRepo e = Some r" by blast
  show ?case
    apply (rule exI[of _ "evs1 @ evs2"])
    using 1 2 by (auto simp: Let_def e)
qed

lemma committed_append [simp]: "committed r (xs @ ys) = (committed r xs \<or> committed r ys)"
  by (simp add: committed_def list_ex_append)

lemma queried_append [simp]: "queried r (xs @ ys) = (queried r xs \<or> queried r ys)"
  by (simp add: queried_def list_ex_append)





lemma sweep_trace:
  "\<exists>evs. trace (snd (createSnapshotsForPendingChanges env message w)) = trace w @ evs \<and>
         \<not> list_ex isWrite evs \<and>
         disk (snd (createSnapshotsForPendingChanges env message w)) = disk w"
proof (cases "commitInProgress w")
  case True
  show ?thesis
    by (rule exI[of _ "[SkipDuplicate]"]) (use True in \<open>simp add: createSnapshotsForPendingChanges_def\<close>)
next
  case False
  from snapshotRepos_trace[of env message "pendingChangesByRepo w" "trace w"] obtain evs where
    1: "snd (snapshotRepos env message (pendingChangesByRepo w) (trace w)) = trace w @ evs"
       "\<forall>e \<in> set evs. \<exists>r \<in> fst ` set (pendingChangesByRepo w). eventRepo e = Some r" by blast
  have "\<And>e. e \<in> set evs \<Longrightarrow> \<not> isWrite e"
  proof -
    fix e assume "e \<in> set evs"
    with 1(2) obtain r where "eventRepo e = Some r" by blast
    then show "\<not> isWrite e" by (cases e) simp_all
  qed
  then have nw: "\<not> list_ex isWrite evs" by (simp add: list_ex_iff)
  show ?thesis
    by (rule exI[of _ evs])
       (use False 1(1) nw in \<open>simp add: createSnapshotsForPendingChanges_def sweepBody_def Let_def\<close>)
qed

lemma trackFileChange_trace:
  "\<exists>evs. trace (trackFileChange env filePath w) = trace w @ evs \<and>
         \<not> list_ex isWrite evs \<and>
         disk (trackFileChange env filePath w) = disk w \<and>
         (isGitRepository env (trace w) filePath \<longrightarrow>
            (\<forall>root. getRepositoryRoot env (trace w) filePath = Inr root \<longrightarrow>
               list_ex ((=) (Tracked (removeFirst filePath (root @ ''/'')) root)) evs))"
proof (cases "isGitRepository env (trace w) filePath")
  case False
  show ?thesis
    by (rule exI[of _ "[]"]) (use False in \<open>simp add: trackFileChange_def trackFileChangeTry_def\<close>)
next
  case True
  show ?thesis
  proof (cases "getRepositoryRoot env (trace w) filePath")
    case (Inl err)
    show ?thesis
      by (rule exI[of _ "[]"]) (use True Inl in \<open>simp add: trackFileChange_def trackFileChangeTry_def\<close>)
  next
    case (Inr root)
    define rel where "rel = removeFirst filePath (root @ ''/'')"
    define w1 where "w1 = w\<lparr>pendingChangesByRepo := addPending root rel (pendingChangesByRepo w),
                          lastTrackTimestamp := now w,
                          trace := trace w @ [Tracked rel root]\<rparr>"
    have t: "trackFileChange env filePath w =
               snd (createSnapshotsForPendingChanges env (Some (''Snapshot for '' @ rel)) w1)"
      using True Inr by (simp add: trackFileChange_def trackFileChangeTry_def Let_def rel_def w1_def)
    from sweep_trace[of env "Some (''Snapshot for '' @ rel)" w1] obtain evs where
      1: "trace (snd (createSnapshotsForPendingChanges env (Some (''Snapshot for '' @ rel)) w1)) = trace w1 @ evs"
         "\<not> list_ex isWrite evs"
         "disk (snd (createSnapshotsForPendingChanges env (Some (''Snapshot for '' @ rel)) w1)) = disk w1"
      by blast
    show ?thesis
      by (rule exI[of _ "Tracked rel root # evs"])
         (use t 1 True Inr in \<open>simp add: w1_def rel_def\<close>)
  qed
qed


text \<open>
  The keys of \<open>pendingChangesByRepo\<close> are those of an object: they are distinct, and the
  enrollment and the sweep keep them so.
\<close>

lemma addPending_keys:
  "fst ` set (addPending repoRoot rel pending) = insert repoRoot (fst ` set pending)"
proof (induction pending)
  case Nil
  show ?case by simp
next
  case (Cons e pending)
  obtain k fs where e: "e = (k, fs)" by (cases e)
  show ?case
  proof (cases "k = repoRoot")
    case True
    then show ?thesis by (simp add: e)
  next
    case False
    then show ?thesis using Cons.IH by (simp add: e insert_commute)
  qed
qed

lemma addPending_distinct:
  "distinct (map fst pending) \<Longrightarrow> distinct (map fst (addPending repoRoot rel pending))"
proof (induction pending)
  case Nil
  show ?case by simp
next
  case (Cons e pending)
  obtain k fs where e: "e = (k, fs)" by (cases e)
  show ?case
  proof (cases "k = repoRoot")
    case True
    with Cons.prems e show ?thesis by simp
  next
    case False
    have "k \<notin> fst ` set (addPending repoRoot rel pending)"
      using Cons.prems e False by (simp add: addPending_keys)
    with Cons e False show ?thesis by simp
  qed
qed

lemma sweep_keeps_keys:
  "map fst (pendingChangesByRepo (snd (createSnapshotsForPendingChanges env message w))) =
     map fst (pendingChangesByRepo w)"
  using snapshotRepos_keys[of env message "pendingChangesByRepo w" "trace w"]
  by (simp add: createSnapshotsForPendingChanges_def sweepBody_def Let_def)

lemma trackFileChange_distinct:
  assumes "distinct (map fst (pendingChangesByRepo w))"
  shows "distinct (map fst (pendingChangesByRepo (trackFileChange env filePath w)))"
proof (cases "isGitRepository env (trace w) filePath")
  case False
  with assms show ?thesis by (simp add: trackFileChange_def trackFileChangeTry_def)
next
  case True
  show ?thesis
  proof (cases "getRepositoryRoot env (trace w) filePath")
    case (Inl err)
    with True assms show ?thesis by (simp add: trackFileChange_def trackFileChangeTry_def)
  next
    case (Inr root)
    with True assms show ?thesis
      by (simp add: trackFileChange_def trackFileChangeTry_def Let_def sweep_keeps_keys
            addPending_distinct)
  qed
qed


subsection \<open>The sweep clears what it committed\<close>





subsection \<open>The files of a commit\<close>

text \<open>
  Claim C3, as the code has it. For a repository with a non-empty pending set: when the
  status query throws, nothing is committed and the pending set stays; when it returns,
  the commit is called once, with the modified, new and staged files of the status without
  duplicates, and with the pending files only when the status lists no file at all. The
  pending files are not added to the files of the status.
\<close>

theorem C3_commit_files:
  assumes "files \<noteq> []"
  shows "(case getGitStatus env tr r of
            Inl err \<Rightarrow>
              snapshotRepo env message (r, files) tr = ((r, files), tr @ [GitStatus r (Inl err)])
          | Inr st \<Rightarrow>
              (\<exists>fs out.
                 snd (snapshotRepo env message (r, files) tr) =
                   tr @ [GitStatus r (Inr st), GitCommit r fs (commitMessageFor message files) out] \<and>
                 fs = (if modified st @ not_added st @ staged st = [] then files
                       else uniq (modified st @ not_added st @ staged st)) \<and>
                 (modified st @ not_added st @ staged st \<noteq> [] \<longrightarrow>
                    distinct fs \<and> set fs = set (modified st) \<union> set (not_added st) \<union> set (staged st))))"
proof (cases "getGitStatus env tr r")
  case (Inl err)
  with assms show ?thesis by (simp add: snapshotRepo_def snapshotRepoTry_def)
next
  case (Inr st)
  show ?thesis
  proof (cases "commitChanges env (tr @ [GitStatus r (Inr st)]) r (filesToCommit st files)
                  (commitMessageFor message files)")
    case (Inl err)
    with Inr assms show ?thesis
      by (simp add: snapshotRepo_def snapshotRepoTry_def filesToCommit_eq Un_assoc)
  next
    case (Inr h)
    with \<open>getGitStatus env tr r = Inr st\<close> assms show ?thesis
      by (simp add: snapshotRepo_def snapshotRepoTry_def filesToCommit_eq Un_assoc)
  qed
qed


theorem C3_commit_files_witness:
  "[''a.txt''] \<noteq> ([] :: string list) \<and>
   snapshotRepo envC None (''/repo'', [''a.txt'']) [] =
     ((''/repo'', []),
      [GitStatus ''/repo'' (Inr \<lparr>modified = [''b.txt''], not_added = [], staged = []\<rparr>),
       GitCommit ''/repo'' [''b.txt''] ''Project snapshot before editing a.txt'' (Inr ''c0ffee1'')])"
  using C3_commit_files[where files = "[''a.txt'']" and env = envC and tr = "[]" and r = "''/repo''" and message = None]
  by (simp add: envC_def envA_def eval_defs)


text \<open>
  The status lists \<open>b.txt\<close>, the pending set is \<open>a.txt\<close>: the commit is called with
  \<open>b.txt\<close> alone, not with the union \<open>b.txt, a.txt\<close>. And the failed status query
  of \<open>/repo3\<close> is followed by no commit of the pending file.
\<close>

theorem C3_no_union_with_pending:
  "snd (snapshotRepo envC None (''/repo'', [''a.txt'']) []) =
      [GitStatus ''/repo'' (Inr \<lparr>modified = [''b.txt''], not_added = [], staged = []\<rparr>),
       GitCommit ''/repo'' [''b.txt''] ''Project snapshot before editing a.txt'' (Inr ''c0ffee1'')] \<and>
   uniq ([''b.txt''] @ [] @ [] @ [''a.txt'']) = [''b.txt'', ''a.txt''] \<and>
   snd (snapshotRepo envB None (''/repo3'', [''c.txt'']) []) =
      [GitStatus ''/repo3'' (Inl (Error ''status failed''))]"
  by (simp add: envC_def envA_def envB_def eval_defs)


subsection \<open>The edit\<close>

text \<open>
  What \<open>readFile\<close> gives the edit. It always returns a string and never throws. The
  string is the content of the file when the file has at most \<open>MAX_SIZE\<close> bytes, is no
  image and is read before the timer of 30 seconds; it is a message about the size for a
  larger file, and the default value of \<open>withTimeout\<close> for a path that has no file.
\<close>

lemma readFile_returns: "\<exists>t c. readFile env w filePath = Fulfilled t c"
  by (simp add: readFile_def readFileFromDisk_def withTimeout_def settledAt_def onTimeout_def
        onThen_def onCatch_def Let_def split: sum.splits option.splits)

lemma readFile_content:
  assumes "disk w (validatePath env filePath) = Some content"
      and "byteLength env content \<le> MAX_SIZE"
      and "\<not> isImage env (validatePath env filePath)"
      and "readTime env (trace w) (validatePath env filePath) = Some t"
      and "t < 30000"
  shows "readFile env w filePath = Fulfilled t content"
  using assms
  by (simp add: readFile_def readFileFromDisk_def fsStat_def fsReadFile_def readOperation_def
        FILE_READ_TIMEOUT_def timerDelay_def withTimeout_def settledAt_def onThen_def Let_def)

lemma readFile_too_large:
  assumes "disk w (validatePath env filePath) = Some content"
      and "MAX_SIZE < byteLength env content"
  shows "readFile env w filePath =
           Fulfilled 0 (''File too large ('' @ toFixed2 (byteLength env content) 1024 @
                        ''KB > 500KB limit)'')"
proof -
  have "string_of_nat (MAX_SIZE div 1024) = ''500''"
    by (simp add: MAX_SIZE_def string_of_nat.simps digitChar_def)
  with assms show ?thesis
    by (simp add: readFile_def readFileFromDisk_def fsStat_def Let_def)
qed

lemma readFile_missing:
  assumes "disk w (validatePath env filePath) = None"
  shows "\<exists>t. readFile env w filePath = Fulfilled t ''Operation timed out after 30 seconds''"
proof -
  have "string_of_int (FILE_READ_TIMEOUT div 1000) = ''30''"
    by (simp add: FILE_READ_TIMEOUT_def string_of_int_def string_of_nat.simps digitChar_def)
  with assms show ?thesis
    by (simp add: readFile_def readFileFromDisk_def fsStat_def fsReadFile_def readOperation_def
          withTimeout_def settledAt_def onTimeout_def onThen_def onCatch_def Let_def
          split: option.splits)
qed

lemmas read_defs = readFile_def readFileFromDisk_def fsStat_def fsReadFile_def readOperation_def
  MAX_SIZE_def FILE_READ_TIMEOUT_def toFixed2_def withTimeout_def timerDelay_def settledAt_def
  onTimeout_def onThen_def onCatch_def string_of_int_def string_of_nat.simps digitChar_def


text \<open>
  For a file that is read as it is, a search text that does not occur in it gives the
  error message saying the file may have been modified, and the state is the one before
  the call: nothing written, nothing tracked.
\<close>

lemma absent_search:
  assumes "disk w (validatePath env filePath) = Some content"
      and "byteLength env content \<le> MAX_SIZE"
      and "\<not> isImage env (validatePath env filePath)"
      and "readTime env (trace w) (validatePath env filePath) = Some t"
      and "t < 30000"
      and "\<not> (\<exists>pre suf. content = pre @ search block @ suf)"
  shows "performSearchReplace env filePath block w =
           (Some (Inr \<lparr>contentText = ''Search content not found in '' @ filePath @
                    ''. The file may have been modified since Claude last saw it.'',
                 isError = True\<rparr>), w)"
proof -
  from assms(6) have "indexOf content (search block) = - 1"
    by (simp add: indexOf_absent)
  moreover have "readFile env w filePath = Fulfilled t content"
    using assms(1-5) by (rule readFile_content)
  ultimately show ?thesis
    by (simp add: performSearchReplace_def)
qed

lemma bigContent_length: "length bigContent = 614400"
  unfolding bigContent_def by (rule length_replicate)

lemma bigContent_absent: "indexOf bigContent ''too large'' = - 1"
proof -
  have "\<not> (\<exists>pre suf. bigContent = pre @ ''too large'' @ suf)"
  proof
    assume "\<exists>pre suf. bigContent = pre @ ''too large'' @ suf"
    then obtain pre suf where e: "bigContent = pre @ ''too large'' @ suf" by blast
    have "CHR ''t'' \<in> set (pre @ ''too large'' @ suf)" by simp
    then have "CHR ''t'' \<in> set bigContent" unfolding e .
    then have "CHR ''t'' \<in> {CHR ''x''}"
      unfolding bigContent_def using set_replicate_conv_if[of 614400 "CHR ''x''"]
      by (metis empty_iff)
    then show False by simp
  qed
  then show ?thesis using indexOf_absent[of bigContent "''too large''"] by blast
qed


text \<open>
  Claim C5 says that a search text absent from the file leaves the file as it is and gives
  the error result. The file \<open>/repo/big.log\<close> has 614400 bytes, more than \<open>MAX_SIZE\<close>,
  and the text \<open>too large\<close> does not occur in it. \<open>readFile\<close> returns the message about
  the size, the search runs on that message and finds the text at index 5, and the edit
  returns "Successfully applied edit" after writing the message, with \<open>too large\<close>
  replaced, over the file.
\<close>

theorem C5_large_file_overwritten:
  "disk worldL ''/repo/big.log'' = Some bigContent \<and>
   length bigContent = 614400 \<and>
   indexOf bigContent ''too large'' = - 1 \<and>
   readFile envR worldL ''/repo/big.log'' = Fulfilled 0 ''File too large (600.00KB > 500KB limit)'' \<and>
   performSearchReplace envR ''/repo/big.log'' \<lparr>search = ''too large'', replace = ''fine''\<rparr> worldL =
     (Some (Inr \<lparr>contentText = ''Successfully applied edit to /repo/big.log'', isError = False\<rparr>),
      worldL\<lparr>disk := [''/repo/big.log'' \<mapsto> ''File fine (600.00KB > 500KB limit)''],
             trace := [WriteFile ''/repo/big.log'' ''File fine (600.00KB > 500KB limit)'']\<rparr>)"
proof -
  have d: "disk worldL ''/repo/big.log'' = Some bigContent" by (simp add: worldL_def)
  have v: "validatePath envR ''/repo/big.log'' = ''/repo/big.log''" by (simp add: envR_def envA_def)
  have b: "byteLength envR bigContent = 614400" by (simp add: envR_def envA_def bigContent_length)
  have r: "readFile envR worldL ''/repo/big.log'' =
             Fulfilled 0 ''File too large (600.00KB > 500KB limit)''"
    using readFile_too_large[of worldL envR "''/repo/big.log''" bigContent] d
    by (simp add: v b MAX_SIZE_def toFixed2_def string_of_nat.simps digitChar_def Let_def)
  have p: "performSearchReplace envR ''/repo/big.log'' \<lparr>search = ''too large'', replace = ''fine''\<rparr> worldL =
     (Some (Inr \<lparr>contentText = ''Successfully applied edit to /repo/big.log'', isError = False\<rparr>),
      worldL\<lparr>disk := [''/repo/big.log'' \<mapsto> ''File fine (600.00KB > 500KB limit)''],
             trace := [WriteFile ''/repo/big.log'' ''File fine (600.00KB > 500KB limit)'']\<rparr>)"
    unfolding performSearchReplace_def r
    by (simp add: envR_def envA_def worldL_def isGitRepository_def trackFileChange_def
          trackFileChangeTry_def writeFile_def substring_def substringFrom_def clampIndex_def Let_def)
  from d bigContent_length bigContent_absent r p show ?thesis by simp
qed


text \<open>
  Claim C4, as the code has it. For a file of at most \<open>MAX_SIZE\<close> bytes that is no image
  and is read before the timer of 30 seconds: when its content is \<open>pre @ search @ suf\<close>
  and the search text starts at no index before the end of \<open>pre\<close>, the position found is
  the length of \<open>pre\<close> and, when the write succeeds, the content written is
  \<open>pre @ replace @ suf\<close>, after the call of \<open>trackFileChange\<close>. The result returned is
  the message "Successfully applied edit to" with the path; it does not carry the
  position.
\<close>

theorem C4_first_occurrence:
  assumes cont: "disk w (validatePath env filePath) = Some (pre @ search block @ suf)"
      and small: "byteLength env (pre @ search block @ suf) \<le> MAX_SIZE"
      and noimg: "\<not> isImage env (validatePath env filePath)"
      and rt: "readTime env (trace w) (validatePath env filePath) = Some t"
      and intime: "t < 30000"
      and first: "\<forall>j < length pre. \<not> prefix (search block) (drop j (pre @ search block @ suf))"
      and wr: "fsWriteFile env (trace (trackFileChange env filePath w)) (validatePath env filePath)
                 (pre @ replace block @ suf) = None"
  shows "indexOf (pre @ search block @ suf) (search block) = int (length pre) \<and>
         performSearchReplace env filePath block w =
           (Some (Inr \<lparr>contentText = ''Successfully applied edit to '' @ filePath, isError = False\<rparr>),
            (trackFileChange env filePath w)
              \<lparr>disk := (disk (trackFileChange env filePath w))
                         (validatePath env filePath \<mapsto> pre @ replace block @ suf),
               trace := trace (trackFileChange env filePath w) @
                         [WriteFile (validatePath env filePath) (pre @ replace block @ suf)]\<rparr>)"
proof -
  have i: "indexOf (pre @ search block @ suf) (search block) = int (length pre)"
    using first by (rule indexOf_first)
  have rd: "readFile env w filePath = Fulfilled t (pre @ search block @ suf)"
    using cont small noimg rt intime by (rule readFile_content)
  show ?thesis
    using rd wr i
    by (simp add: performSearchReplace_def writeFile_def Let_def substring_take substringFrom_drop)
qed


theorem C4_first_occurrence_witness:
  "byteLength envR ''foo bar foo'' \<le> MAX_SIZE \<and>
   performSearchReplace envR ''/repo/a.txt'' \<lparr>search = ''foo'', replace = ''baz''\<rparr> (worldA ''foo bar foo'') =
     (Some (Inr \<lparr>contentText = ''Successfully applied edit to /repo/a.txt'', isError = False\<rparr>),
      \<lparr>disk = [''/repo/a.txt'' \<mapsto> ''baz bar foo''], pendingChangesByRepo = [],
       lastTrackTimestamp = 0, commitInProgress = False, snapshotTimeoutId = None, now = 7,
       trace = [WriteFile ''/repo/a.txt'' ''baz bar foo'']\<rparr>) \<and>
   indexOf ''a foo, a foo'' ''foo'' = 2 \<and>
   disk (snd (performSearchReplace envR ''/repo/a.txt'' \<lparr>search = ''foo'', replace = ''baz''\<rparr>
                (worldA ''a foo, a foo''))) ''/repo/a.txt'' = Some ''a baz, a foo''"
proof -
  have first: "\<forall>j < length ''a ''. \<not> prefix ''foo'' (drop j (''a '' @ ''foo'' @ '', a foo''))"
  proof (intro allI impI)
    fix j :: nat assume "j < length ''a ''"
    then have "j = 0 \<or> j = 1" by auto
    then show "\<not> prefix ''foo'' (drop j (''a '' @ ''foo'' @ '', a foo''))" by auto
  qed
  show ?thesis
    using C4_first_occurrence[of "worldA ''foo bar foo''" envR "''/repo/a.txt''" "[]"
                  "\<lparr>search = ''foo'', replace = ''baz''\<rparr>" "'' bar foo''" 1]
          C4_first_occurrence[of "worldA ''a foo, a foo''" envR "''/repo/a.txt''" "''a ''"
                  "\<lparr>search = ''foo'', replace = ''baz''\<rparr>" "'', a foo''" 1] first
    by (simp add: envR_def envA_def worldA_def eval_defs MAX_SIZE_def)
qed


text \<open>
  Two edits whose match is at index 0 and at index 4 return the same result: the position
  is not reported to the caller.
\<close>

theorem C4_position_not_reported:
  "fst (performSearchReplace envR ''/repo/a.txt'' \<lparr>search = ''foo'', replace = ''baz''\<rparr> (worldA ''foo bar'')) =
     Some (Inr \<lparr>contentText = ''Successfully applied edit to /repo/a.txt'', isError = False\<rparr>) \<and>
   fst (performSearchReplace envR ''/repo/a.txt'' \<lparr>search = ''foo'', replace = ''baz''\<rparr> (worldA ''bar foo'')) =
     Some (Inr \<lparr>contentText = ''Successfully applied edit to /repo/a.txt'', isError = False\<rparr>) \<and>
   indexOf ''foo bar'' ''foo'' = 0 \<and> indexOf ''bar foo'' ''foo'' = 4"
  by (simp add: envR_def envA_def worldA_def eval_defs read_defs)


text \<open>
  What one run of the edit adds to the trace when it writes: the events of
  \<open>trackFileChange\<close>, none of them a write and all with the disk as it was before the
  call, and then the write.
\<close>

lemma edit_trace:
  assumes run: "performSearchReplace env filePath block w = (res, w')"
      and wr: "list_ex isWrite (newEvents w w')"
  shows "\<exists>evs p c.
           trace (trackFileChange env filePath w) = trace w @ evs \<and>
           \<not> list_ex isWrite evs \<and>
           disk (trackFileChange env filePath w) = disk w \<and>
           (isGitRepository env (trace w) filePath \<longrightarrow>
              (\<forall>root. getRepositoryRoot env (trace w) filePath = Inr root \<longrightarrow>
                 list_ex ((=) (Tracked (removeFirst filePath (root @ ''/'')) root)) evs)) \<and>
           w' = (trackFileChange env filePath w)
                  \<lparr>disk := (disk w)(p \<mapsto> c), trace := trace w @ evs @ [WriteFile p c]\<rparr>"
proof -
  from trackFileChange_trace[of env filePath w] obtain evs where
    1: "trace (trackFileChange env filePath w) = trace w @ evs"
       "\<not> list_ex isWrite evs"
       "disk (trackFileChange env filePath w) = disk w"
       "isGitRepository env (trace w) filePath \<longrightarrow>
            (\<forall>root. getRepositoryRoot env (trace w) filePath = Inr root \<longrightarrow>
               list_ex ((=) (Tracked (removeFirst filePath (root @ ''/'')) root)) evs)"
    by blast
  from run wr 1(1,2,3) have
    "\<exists>p c. w' = (trackFileChange env filePath w)
                  \<lparr>disk := (disk w)(p \<mapsto> c), trace := trace w @ evs @ [WriteFile p c]\<rparr>"
    by (auto simp: performSearchReplace_def writeFile_def newEvents_def Let_def
             split: sum.splits if_splits option.splits promise.splits)
  with 1 show ?thesis by blast
qed


subsection \<open>History and revert\<close>

text \<open>
  Claim C9, as the code has it. For a file in a repository whose root resolves: when the
  checkout throws, \<open>revertFile\<close> throws the same error, and when the revert throws,
  \<open>revertCommit\<close> throws it; but when the log call throws, \<open>getFileHistory\<close> returns the
  empty history, and it never throws.
\<close>

theorem C9_revert_propagates:
  assumes repo: "isGitRepository env tr filePath"
      and root: "getRepositoryRoot env tr filePath = Inr repoRoot"
  shows "(checkout env tr repoRoot [commitHash, ''--'', removeFirst filePath (repoRoot @ ''/'')] = Inl err
            \<longrightarrow> revertFile env tr filePath commitHash = Inl err) \<and>
         (revert env tr repoRoot commitHash = Inl err'
            \<longrightarrow> revertCommit env tr repoRoot commitHash = Inl err') \<and>
         (gitLog env tr repoRoot (logOptions maxCount (removeFirst filePath (repoRoot @ ''/''))) = Inl err''
            \<longrightarrow> getFileHistory env tr filePath maxCount = Inr []) \<and>
         (\<exists>history. getFileHistory env tr filePath maxCount = Inr history)"
  using repo root
  by (auto simp: revertFile_def revertCommit_def getFileHistory_def Let_def split: sum.splits)


theorem C9_revert_propagates_witness:
  "isGitRepository envD [] ''/repo/a.txt'' \<and>
   getRepositoryRoot envD [] ''/repo/a.txt'' = Inr ''/repo'' \<and>
   checkout envD [] ''/repo'' [''abc1234'', ''--'', ''a.txt''] = Inl (Error ''error: pathspec'') \<and>
   revertFile envD [] ''/repo/a.txt'' ''abc1234'' = Inl (Error ''error: pathspec'') \<and>
   revert envD [] ''/repo'' ''abc1234'' = Inl (Error ''error: could not revert'') \<and>
   revertCommit envD [] ''/repo'' ''abc1234'' = Inl (Error ''error: could not revert'') \<and>
   gitLog envD [] ''/repo'' (logOptions 10 ''a.txt'') = Inl (Error ''fatal: bad revision'') \<and>
   getFileHistory envD [] ''/repo/a.txt'' 10 = Inr []"
  using C9_revert_propagates[where env = envD and tr = "[]" and filePath = "''/repo/a.txt''" and repoRoot = "''/repo''"
                 and commitHash = "''abc1234''" and err = "Error ''error: pathspec''"
                 and err' = "Error ''error: could not revert''"
                 and err'' = "Error ''fatal: bad revision''" and maxCount = 10]
  by (simp add: envD_def envA_def revertCommit_def eval_defs)


text \<open>The log call throws and \<open>getFileHistory\<close> returns the empty list to its caller.\<close>

theorem C9_history_absorbs:
  "gitLog envD [] ''/repo'' (logOptions 10 ''a.txt'') = Inl (Error ''fatal: bad revision'') \<and>
   getFileHistory envD [] ''/repo/a.txt'' 10 = Inr []"
  by (simp add: envD_def envA_def getFileHistory_def eval_defs)


subsection \<open>The timeout wrapper\<close>

lemma withTimeout_fulfilled:
  "\<exists>t v. withTimeout timerFirst operation ms operationName defaultValue = Fulfilled t v"
  by (cases operation)
     (simp_all add: withTimeout_def onTimeout_def onThen_def onCatch_def settledAt_def Let_def)

lemma withTimeout_rejected:
  "withTimeout timerFirst (Rejected t err) ms operationName defaultValue =
     Fulfilled (min t (timerDelay ms)) defaultValue"
  by (auto simp: withTimeout_def onTimeout_def onCatch_def settledAt_def Let_def min_def)

lemma withTimeout_pending:
  "withTimeout timerFirst Pending ms operationName defaultValue =
     Fulfilled (timerDelay ms) defaultValue"
  by (simp add: withTimeout_def onTimeout_def settledAt_def Let_def)

lemma withTimeout_empty:
  "\<exists>t'. withTimeout timerFirst (Fulfilled t []) ms operationName [] = Fulfilled t' []"
  by (simp add: withTimeout_def onTimeout_def onThen_def settledAt_def Let_def)


text \<open>
  Claim C10. A rejected operation makes \<open>withTimeout\<close> resolve with the default value, at
  the time of the rejection when that is before the timer; on a timeout it resolves with
  the same value; and whatever the operation does, the promise returned is fulfilled,
  never rejected. So \<open>handleSearchCode\<close> returns the same for a search that failed, one
  that timed out and one that found nothing.
\<close>

theorem C10_withTimeout_never_rejects:
  "withTimeout timerFirst (Rejected t err) ms operationName defaultValue =
     Fulfilled (min t (timerDelay ms)) defaultValue \<and>
   withTimeout timerFirst Pending ms operationName defaultValue =
     Fulfilled (timerDelay ms) defaultValue \<and>
   (\<exists>t' v. withTimeout timerFirst operation ms operationName defaultValue = Fulfilled t' v) \<and>
   handleSearchCode timerFirst (Rejected t err) parsedTimeoutMs currentSearchProcess killThrows =
     handleSearchCode timerFirst Pending parsedTimeoutMs currentSearchProcess killThrows \<and>
   handleSearchCode timerFirst (Fulfilled t2 []) parsedTimeoutMs currentSearchProcess killThrows =
     handleSearchCode timerFirst Pending parsedTimeoutMs currentSearchProcess killThrows"
proof -
  have 1: "handleSearchCode timerFirst (Rejected t err) parsedTimeoutMs currentSearchProcess killThrows =
     handleSearchCode timerFirst Pending parsedTimeoutMs currentSearchProcess killThrows"
    by (simp add: handleSearchCode_def withTimeout_rejected withTimeout_pending Let_def)
  obtain t' where "withTimeout timerFirst (Fulfilled t2 [])
       (case parsedTimeoutMs of None \<Rightarrow> 30000 | Some t \<Rightarrow> if t = 0 then 30000 else t)
       ''Code search operation'' ([] :: SearchResult list) = Fulfilled t' []"
    using withTimeout_empty by blast
  then have 2: "handleSearchCode timerFirst (Fulfilled t2 []) parsedTimeoutMs currentSearchProcess killThrows =
     handleSearchCode timerFirst Pending parsedTimeoutMs currentSearchProcess killThrows"
    by (simp add: handleSearchCode_def withTimeout_pending Let_def)
  show ?thesis
    by (intro conjI withTimeout_rejected withTimeout_pending withTimeout_fulfilled 1 2)
qed


theorem C10_withTimeout_never_rejects_witness:
  "withTimeout False (Rejected 5 (Error ''rg: not found'')) 30000 ''Code search operation'' ([] :: SearchResult list)
     = Fulfilled 5 [] \<and>
   handleSearchCode False (Rejected 5 (Error ''rg: not found'')) None None False =
     (Some (Inr \<lparr>contentText = ''No matches found or search timed out after 30000ms.'', isError = False\<rparr>), None) \<and>
   handleSearchCode False Pending None None False =
     (Some (Inr \<lparr>contentText = ''No matches found or search timed out after 30000ms.'', isError = False\<rparr>), None) \<and>
   handleSearchCode False (Fulfilled 12 []) None None False =
     (Some (Inr \<lparr>contentText = ''No matches found or search timed out after 30000ms.'', isError = False\<rparr>), None)"
  using C10_withTimeout_never_rejects[where timerFirst = False and t = 5 and err = "Error ''rg: not found''" and ms = 30000
     and operationName = "''Code search operation''" and defaultValue = "[] :: SearchResult list"
     and operation = Pending and parsedTimeoutMs = None and currentSearchProcess = None
     and killThrows = False and ?t2.0 = 12]
  by (simp add: handleSearchCode_def withTimeout_def timerDelay_def onTimeout_def onThen_def onCatch_def
        settledAt_def Let_def string_of_int_def string_of_nat.simps digitChar_def)



subsection \<open>Interleaved calls keep the sweep single\<close>

lemma nextRepo_flag:
  "commitInProgress w \<Longrightarrow>
     (sweeping (fst (nextRepo message rest w)) \<and> commitInProgress (snd (nextRepo message rest w))) \<or>
     (fst (nextRepo message rest w) = Finished \<and> \<not> commitInProgress (snd (nextRepo message rest w)))"
  by (induction rest) (auto simp: Let_def)

lemma startSweep_flag:
  "(commitInProgress w \<longrightarrow> fst (startSweep message w) = Finished \<and> commitInProgress (snd (startSweep message w))) \<and>
   (\<not> commitInProgress w \<longrightarrow>
      (sweeping (fst (startSweep message w)) \<and> commitInProgress (snd (startSweep message w))) \<or>
      (fst (startSweep message w) = Finished \<and> \<not> commitInProgress (snd (startSweep message w))))"
proof (cases "commitInProgress w")
  case True
  then show ?thesis by (simp add: startSweep_def)
next
  case False
  define w2 where "w2 = (if snapshotTimeoutId (w\<lparr>commitInProgress := True\<rparr>) \<noteq> None
     then w\<lparr>commitInProgress := True\<rparr>\<lparr>snapshotTimeoutId := None\<rparr> else w\<lparr>commitInProgress := True\<rparr>)"
  have f: "commitInProgress w2" by (simp add: w2_def)
  have "startSweep message w = nextRepo message (map fst (pendingChangesByRepo w2)) w2"
    using False by (simp add: startSweep_def w2_def Let_def)
  with nextRepo_flag[OF f, of message "map fst (pendingChangesByRepo w2)"] False
  show ?thesis by simp
qed

lemma stepTask_idle:
  "\<not> sweeping t \<Longrightarrow>
     (commitInProgress w \<longrightarrow> \<not> sweeping (fst (stepTask env t w)) \<and> commitInProgress (snd (stepTask env t w))) \<and>
     (\<not> commitInProgress w \<longrightarrow>
        (sweeping (fst (stepTask env t w)) \<and> commitInProgress (snd (stepTask env t w))) \<or>
        (\<not> sweeping (fst (stepTask env t w)) \<and> \<not> commitInProgress (snd (stepTask env t w))))"
proof (induction t)
  case (SweepCall message)
  with startSweep_flag[of w message] show ?case by auto
next
  case (TrackIsRepo p)
  then show ?case by simp
next
  case (TrackRoot p)
  show ?case
  proof (cases "getRepositoryRoot env (trace w) p")
    case (Inl err)
    then show ?thesis by simp
  next
    case (Inr repoRoot)
    define w1 where "w1 = w\<lparr>pendingChangesByRepo :=
                         addPending repoRoot (removeFirst p (repoRoot @ ''/'')) (pendingChangesByRepo w),
                       lastTrackTimestamp := now w,
                       trace := trace w @ [Tracked (removeFirst p (repoRoot @ ''/'')) repoRoot]\<rparr>"
    have s: "stepTask env (TrackRoot p) w =
               startSweep (Some (''Snapshot for '' @ removeFirst p (repoRoot @ ''/''))) w1"
      using Inr by (simp add: w1_def Let_def)
    have "commitInProgress w1 = commitInProgress w" by (simp add: w1_def)
    with startSweep_flag[of w1 "Some (''Snapshot for '' @ removeFirst p (repoRoot @ ''/''))"] s
    show ?thesis by auto
  qed
next
  case (AwaitStatus x1 x2 x3 x4 x5)
  then show ?case by simp
next
  case (AwaitCommit x1 x2 x3 x4 x5)
  then show ?case by simp
next
  case (EditRead p block)
  show ?case by (simp add: Let_def split: promise.splits)
next
  case (Editing t p c)
  show ?case
  proof (cases "t = Finished")
    case True
    then show ?thesis by (auto simp: writeFile_def Let_def split: sum.splits option.splits)
  next
    case False
    from Editing.prems have "\<not> sweeping t" by simp
    from Editing.IH[OF this] False show ?thesis by (simp add: Let_def)
  qed
next
  case Finished
  then show ?case by simp
qed

lemma stepTask_sweeping:
  "sweeping t \<Longrightarrow> commitInProgress w \<Longrightarrow>
     (sweeping (fst (stepTask env t w)) \<and> commitInProgress (snd (stepTask env t w))) \<or>
     (\<not> sweeping (fst (stepTask env t w)) \<and> \<not> commitInProgress (snd (stepTask env t w)))"
proof (induction t)
  case (AwaitStatus message rest repoRoot fileArray commitMessage)
  show ?case
  proof (cases "getGitStatus env (trace w) repoRoot")
    case (Inl err)
    have "commitInProgress (w\<lparr>trace := trace w @ [GitStatus repoRoot (Inl err)]\<rparr>)"
      using AwaitStatus.prems by simp
    from nextRepo_flag[OF this, of message rest] Inl show ?thesis by auto
  next
    case (Inr st)
    with AwaitStatus.prems show ?thesis by simp
  qed
next
  case (AwaitCommit message rest repoRoot allChangedFiles commitMessage)
  show ?case
  proof (cases "commitChanges env (trace w) repoRoot allChangedFiles commitMessage")
    case (Inl err)
    have "commitInProgress (w\<lparr>trace := trace w @ [GitCommit repoRoot allChangedFiles commitMessage (Inl err)]\<rparr>)"
      using AwaitCommit.prems by simp
    from nextRepo_flag[OF this, of message rest] Inl show ?thesis by auto
  next
    case (Inr h)
    have "commitInProgress (w\<lparr>pendingChangesByRepo := clearFiles repoRoot (pendingChangesByRepo w),
               trace := trace w @ [GitCommit repoRoot allChangedFiles commitMessage (Inr h)]\<rparr>)"
      using AwaitCommit.prems by simp
    from nextRepo_flag[OF this, of message rest] Inr show ?thesis by auto
  qed
next
  case (Editing t p c)
  from Editing.prems have sw: "sweeping t" by simp
  then have "t \<noteq> Finished" by auto
  with Editing.IH[OF sw Editing.prems(2)] show ?case by (simp add: Let_def)
qed simp_all

lemma filter_update_count:
  assumes "i < length ts"
  shows "length (filter P (ts[i := t])) + (if P (ts ! i) then 1 else 0) =
         length (filter P ts) + (if P t then 1 else 0)"
  using assms
proof (induction ts arbitrary: i)
  case Nil
  then show ?case by simp
next
  case (Cons a ts)
  then show ?case by (cases i) auto
qed

lemma singleFlight_stepAt: "singleFlight c \<Longrightarrow> singleFlight (stepAt env i c)"
proof (cases "i < length (fst c)")
  case False
  assume "singleFlight c"
  with False show ?thesis by (simp add: stepAt_def)
next
  case True
  assume sf: "singleFlight c"
  define t where "t = fst c ! i"
  define r where "r = stepTask env t (snd c)"
  have st: "stepAt env i c = ((fst c)[i := fst r], snd r)"
    using True by (simp add: stepAt_def r_def t_def Let_def)
  from filter_update_count[OF True, of sweeping "fst r"]
  have cnt: "length (filter sweeping ((fst c)[i := fst r])) + (if sweeping t then 1 else 0) =
             length (filter sweeping (fst c)) + (if sweeping (fst r) then 1 else 0)"
    by (simp add: t_def)
  show ?thesis
  proof (cases "sweeping t")
    case False
    from stepTask_idle[OF False, of "snd c" env] sf cnt False show ?thesis
      unfolding st singleFlight_def r_def by (auto split: if_splits)
  next
    case sw: True
    have "t \<in> set (fst c)" using True by (simp add: t_def)
    with sw have "length (filter sweeping (fst c)) > 0"
      by (simp add: length_greater_0_conv filter_empty_conv) blast
    with sf have fl: "commitInProgress (snd c)" by (auto simp: singleFlight_def split: if_splits)
    from stepTask_sweeping[OF sw fl, of env] sf cnt sw fl show ?thesis
      unfolding st singleFlight_def r_def by (auto split: if_splits)
  qed
qed

lemma singleFlight_run: "singleFlight c \<Longrightarrow> singleFlight (run env schedule c)"
  by (induction schedule arbitrary: c) (simp_all add: singleFlight_stepAt)

lemma singleFlight_le: "singleFlight c \<Longrightarrow> length (filter sweeping (fst c)) \<le> 1"
  by (simp add: singleFlight_def)

lemma dropped_call:
  "commitInProgress v \<Longrightarrow>
     createSnapshotsForPendingChanges env message v = (Inr (), v\<lparr>trace := trace v @ [SkipDuplicate]\<rparr>) \<and>
     stepTask env (SweepCall message) v = (Finished, v\<lparr>trace := trace v @ [SkipDuplicate]\<rparr>)"
  by (simp add: createSnapshotsForPendingChanges_def startSweep_def)


text \<open>One sweep alone, run to its end step by step, is the sweep defined above.\<close>

lemma run_solo_Suc:
  "run env (replicate (Suc n) 0) ([t], w) =
     run env (replicate n 0) ([fst (stepTask env t w)], snd (stepTask env t w))"
  by (simp add: stepAt_def Let_def)

lemma filesOf_here:
  "k \<notin> fst ` set pre \<Longrightarrow> filesOf k (pre @ (k, fs) # rest) = fs"
  by (simp add: filesOf_def map_of_append map_add_def map_of_eq_None_iff[THEN iffD2])

lemma clearFiles_other: "k \<notin> fst ` set xs \<Longrightarrow> clearFiles k xs = xs"
  by (induction xs) (auto simp: clearFiles_def)

lemma clearFiles_here:
  "k \<notin> fst ` set pre \<Longrightarrow> k \<notin> fst ` set rest \<Longrightarrow>
     clearFiles k (pre @ (k, fs) # rest) = pre @ (k, []) # rest"
  using clearFiles_other[of k pre] clearFiles_other[of k rest]
  by (simp add: clearFiles_def)

lemma solo_loop:
  assumes "distinct (map fst (pre @ todo))" "pendingChangesByRepo w = pre @ todo"
  shows "\<exists>n. run env (replicate n 0)
                ([fst (nextRepo message (map fst todo) w)], snd (nextRepo message (map fst todo) w)) =
              ([Finished],
               w\<lparr>pendingChangesByRepo := pre @ fst (snapshotRepos env message todo (trace w)),
                 trace := snd (snapshotRepos env message todo (trace w)),
                 commitInProgress := False\<rparr>)"
  using assms
proof (induction todo arbitrary: pre w)
  case Nil
  show ?case
    by (rule exI[of _ 0]) (use Nil in simp)
next
  case (Cons e todo)
  obtain k fs where e: "e = (k, fs)" by (cases e)
  from Cons.prems e have kpre: "k \<notin> fst ` set pre" and krest: "k \<notin> fst ` set todo" by auto
  have fo: "filesOf k (pendingChangesByRepo w) = fs"
    using Cons.prems(2) e kpre by (simp add: filesOf_here)
  show ?case
  proof (cases "fs = []")
    case True
    have d: "distinct (map fst ((pre @ [(k, [])]) @ todo))" using Cons.prems(1) e by simp
    have p: "pendingChangesByRepo w = (pre @ [(k, [])]) @ todo" using Cons.prems(2) e True by simp
    from Cons.IH[OF d p] obtain n where
      n: "run env (replicate n 0)
            ([fst (nextRepo message (map fst todo) w)], snd (nextRepo message (map fst todo) w)) =
          ([Finished],
           w\<lparr>pendingChangesByRepo := (pre @ [(k, [])]) @ fst (snapshotRepos env message todo (trace w)),
             trace := snd (snapshotRepos env message todo (trace w)),
             commitInProgress := False\<rparr>)" by blast
    show ?thesis
      by (rule exI[of _ n]) (use n fo True e in \<open>simp add: snapshotRepo_def Let_def\<close>)
  next
    case False
    define cm where "cm = commitMessageFor message fs"
    have nr: "nextRepo message (map fst (e # todo)) w = (AwaitStatus message (map fst todo) k fs cm, w)"
      using fo False e by (simp add: Let_def cm_def)
    show ?thesis
    proof (cases "getGitStatus env (trace w) k")
      case (Inl err)
      define w1 where "w1 = w\<lparr>trace := trace w @ [GitStatus k (Inl err)]\<rparr>"
      have s1: "stepTask env (AwaitStatus message (map fst todo) k fs cm) w =
                  nextRepo message (map fst todo) w1"
        using Inl by (simp add: w1_def)
      have d: "distinct (map fst ((pre @ [(k, fs)]) @ todo))" using Cons.prems(1) e by simp
      have p: "pendingChangesByRepo w1 = (pre @ [(k, fs)]) @ todo"
        using Cons.prems(2) e by (simp add: w1_def)
      from Cons.IH[OF d p] obtain n where
        n: "run env (replicate n 0)
              ([fst (nextRepo message (map fst todo) w1)], snd (nextRepo message (map fst todo) w1)) =
            ([Finished],
             w1\<lparr>pendingChangesByRepo := (pre @ [(k, fs)]) @ fst (snapshotRepos env message todo (trace w1)),
               trace := snd (snapshotRepos env message todo (trace w1)),
               commitInProgress := False\<rparr>)" by blast
      have sr: "snapshotRepo env message (k, fs) (trace w) = ((k, fs), trace w1)"
        using False Inl by (simp add: snapshotRepo_def snapshotRepoTry_def w1_def)
      show ?thesis
        apply (rule exI[of _ "Suc n"])
        apply (simp only: nr fst_conv snd_conv run_solo_Suc s1 n)
        apply (simp add: e sr Let_def w1_def)
        done
    next
      case (Inr st)
      define w1 where "w1 = w\<lparr>trace := trace w @ [GitStatus k (Inr st)]\<rparr>"
      define files where "files = filesToCommit st fs"
      have s1: "stepTask env (AwaitStatus message (map fst todo) k fs cm) w =
                  (AwaitCommit message (map fst todo) k files cm, w1)"
        using Inr by (simp add: w1_def files_def)
      show ?thesis
      proof (cases "commitChanges env (trace w1) k files cm")
        case (Inl err)
        define w2 where "w2 = w1\<lparr>trace := trace w1 @ [GitCommit k files cm (Inl err)]\<rparr>"
        have s2: "stepTask env (AwaitCommit message (map fst todo) k files cm) w1 =
                    nextRepo message (map fst todo) w2"
          using Inl by (simp add: w2_def)
        have d: "distinct (map fst ((pre @ [(k, fs)]) @ todo))" using Cons.prems(1) e by simp
        have p: "pendingChangesByRepo w2 = (pre @ [(k, fs)]) @ todo"
          using Cons.prems(2) e by (simp add: w2_def w1_def)
        from Cons.IH[OF d p] obtain n where
          n: "run env (replicate n 0)
                ([fst (nextRepo message (map fst todo) w2)], snd (nextRepo message (map fst todo) w2)) =
              ([Finished],
               w2\<lparr>pendingChangesByRepo := (pre @ [(k, fs)]) @ fst (snapshotRepos env message todo (trace w2)),
                 trace := snd (snapshotRepos env message todo (trace w2)),
                 commitInProgress := False\<rparr>)" by blast
        have sr: "snapshotRepo env message (k, fs) (trace w) = ((k, fs), trace w2)"
          using False \<open>getGitStatus env (trace w) k = Inr st\<close> Inl
          by (simp add: snapshotRepo_def snapshotRepoTry_def w1_def w2_def files_def cm_def)
        show ?thesis
          apply (rule exI[of _ "Suc (Suc n)"])
          apply (simp only: nr fst_conv snd_conv run_solo_Suc s1 s2 n)
          apply (simp add: e sr Let_def w1_def w2_def)
          done
      next
        case (Inr h)
        define w2 where "w2 = w1\<lparr>pendingChangesByRepo := clearFiles k (pendingChangesByRepo w1),
                                 trace := trace w1 @ [GitCommit k files cm (Inr h)]\<rparr>"
        have s2: "stepTask env (AwaitCommit message (map fst todo) k files cm) w1 =
                    nextRepo message (map fst todo) w2"
          using Inr by (simp add: w2_def)
        have d: "distinct (map fst ((pre @ [(k, [])]) @ todo))" using Cons.prems(1) e by simp
        have p: "pendingChangesByRepo w2 = (pre @ [(k, [])]) @ todo"
          using Cons.prems(2) e clearFiles_here[OF kpre krest, of fs]
          by (simp add: w2_def w1_def)
        from Cons.IH[OF d p] obtain n where
          n: "run env (replicate n 0)
                ([fst (nextRepo message (map fst todo) w2)], snd (nextRepo message (map fst todo) w2)) =
              ([Finished],
               w2\<lparr>pendingChangesByRepo := (pre @ [(k, [])]) @ fst (snapshotRepos env message todo (trace w2)),
                 trace := snd (snapshotRepos env message todo (trace w2)),
                 commitInProgress := False\<rparr>)" by blast
        have sr: "snapshotRepo env message (k, fs) (trace w) = ((k, []), trace w2)"
          using False \<open>getGitStatus env (trace w) k = Inr st\<close> Inr
          by (simp add: snapshotRepo_def snapshotRepoTry_def w1_def w2_def files_def cm_def)
        show ?thesis
          apply (rule exI[of _ "Suc (Suc n)"])
          apply (simp only: nr fst_conv snd_conv run_solo_Suc s1 s2 n)
          apply (simp add: e sr Let_def w1_def w2_def)
          done
      qed
    qed
  qed
qed

lemma solo_sweep:
  assumes "distinct (map fst (pendingChangesByRepo w))"
  shows "\<exists>n. run env (replicate n 0) ([SweepCall message], w) =
              ([Finished], snd (createSnapshotsForPendingChanges env message w))"
proof (cases "commitInProgress w")
  case True
  show ?thesis
    by (rule exI[of _ 1])
       (use True in \<open>simp add: stepAt_def startSweep_def createSnapshotsForPendingChanges_def\<close>)
next
  case False
  define w2 where "w2 = (if snapshotTimeoutId (w\<lparr>commitInProgress := True\<rparr>) \<noteq> None
     then w\<lparr>commitInProgress := True\<rparr>\<lparr>snapshotTimeoutId := None\<rparr> else w\<lparr>commitInProgress := True\<rparr>)"
  have s: "stepTask env (SweepCall message) w = nextRepo message (map fst (pendingChangesByRepo w2)) w2"
    using False by (simp add: startSweep_def w2_def Let_def)
  have d: "distinct (map fst ([] @ pendingChangesByRepo w2))" using assms by (simp add: w2_def)
  have p: "pendingChangesByRepo w2 = [] @ pendingChangesByRepo w2" by simp
  from solo_loop[OF d p, of env message] obtain n where
    n: "run env (replicate n 0)
          ([fst (nextRepo message (map fst (pendingChangesByRepo w2)) w2)],
           snd (nextRepo message (map fst (pendingChangesByRepo w2)) w2)) =
        ([Finished],
         w2\<lparr>pendingChangesByRepo := [] @ fst (snapshotRepos env message (pendingChangesByRepo w2) (trace w2)),
           trace := snd (snapshotRepos env message (pendingChangesByRepo w2) (trace w2)),
           commitInProgress := False\<rparr>)" by blast
  have big: "snd (createSnapshotsForPendingChanges env message w) =
         w2\<lparr>pendingChangesByRepo := [] @ fst (snapshotRepos env message (pendingChangesByRepo w2) (trace w2)),
           trace := snd (snapshotRepos env message (pendingChangesByRepo w2) (trace w2)),
           commitInProgress := False\<rparr>"
    using False by (simp add: createSnapshotsForPendingChanges_def sweepBody_def w2_def Let_def)
  show ?thesis
    apply (rule exI[of _ "Suc n"])
    apply (simp only: run_solo_Suc s n big)
    done
qed


text \<open>Several calls of the sweep over one pending file.\<close>

lemma legalTask_idle: "\<not> sweeping t \<Longrightarrow> legalTask r f w t \<Longrightarrow> legalTask r f w' t"
  by (cases t) (simp_all add: legalTask_def)

lemma legalTask_keep:
  assumes "legalTask r f w t"
      and "pendingChangesByRepo w' = pendingChangesByRepo w"
      and "list_ex isCommitCall (trace w') = list_ex isCommitCall (trace w)"
      and "set (trace w) \<subseteq> set (trace w')"
  shows "legalTask r f w' t"
  using assms by (cases t) (auto simp: legalTask_def)

lemma no_sweeping:
  assumes "singleFlight (ts, w)" "\<not> commitInProgress w" "t \<in> set ts"
  shows "\<not> sweeping t"
proof -
  from assms(1,2) have "filter sweeping ts = []" by (simp add: singleFlight_def)
  with assms(3) show ?thesis by (simp add: filter_empty_conv)
qed

lemma flag_of_sweeping:
  assumes "singleFlight (ts, w)" "t \<in> set ts" "sweeping t"
  shows "commitInProgress w"
  using no_sweeping[OF assms(1) _ assms(2)] assms(3) by blast

lemma stepAt_eq:
  "i < length ts \<Longrightarrow> stepAt env i (ts, w) = (ts[i := fst (stepTask env (ts ! i) w)], snd (stepTask env (ts ! i) w))"
  by (simp add: stepAt_def Let_def)

lemma in_update: "t \<in> set (ts[i := x]) \<Longrightarrow> t = x \<or> t \<in> set ts"
  using set_update_subset_insert[of ts i x] by auto

lemma oneFileInv_stepAt:
  assumes st_ok: "\<forall>tr. \<exists>st. getGitStatus env tr r = Inr st"
      and cm_ok: "\<forall>tr fs m. \<exists>h. commitChanges env tr r fs m = Inr h"
      and inv: "oneFileInv r f c"
  shows "oneFileInv r f (stepAt env i c)"
proof (cases "i < length (fst c)")
  case False
  with inv show ?thesis by (simp add: stepAt_def)
next
  case True
  obtain ts w where c: "c = (ts, w)" by (cases c)
  from True c have i: "i < length ts" by simp
  define t where "t = ts ! i"
  have tin: "t \<in> set ts" using i by (simp add: t_def)
  from inv c have sf: "singleFlight (ts, w)" and
    legal: "\<And>t. t \<in> set ts \<Longrightarrow> legalTask r f w t" by (simp_all add: oneFileInv_def)
  from inv c have phase:
    "(pendingChangesByRepo w = [(r, [f])] \<and> \<not> list_ex isCommitCall (trace w) \<and>
        (\<not> commitInProgress w \<longrightarrow> (\<forall>t \<in> set ts. \<exists>message. t = SweepCall message))) \<or>
     (pendingChangesByRepo w = [(r, [])] \<and> \<not> commitInProgress w \<and> committedOnce r f w)"
    by (simp add: oneFileInv_def)
  have sf': "singleFlight (stepAt env i (ts, w))" using sf by (rule singleFlight_stepAt)
  have se: "stepAt env i (ts, w) = (ts[i := fst (stepTask env t w)], snd (stepTask env t w))"
    using i by (simp add: stepAt_eq t_def)
  have lt: "legalTask r f w t" using legal tin .
  show ?thesis
  proof (cases t)
    case (SweepCall message)
    show ?thesis
    proof (cases "commitInProgress w")
      case True
      define w' where "w' = w\<lparr>trace := trace w @ [SkipDuplicate]\<rparr>"
      have s: "stepTask env t w = (Finished, w')"
        using SweepCall True by (simp add: startSweep_def w'_def)
      have keep: "\<And>u. legalTask r f w u \<Longrightarrow> legalTask r f w' u"
        by (rule legalTask_keep) (auto simp: w'_def)
      have l': "\<forall>u \<in> set (ts[i := Finished]). legalTask r f w' u"
      proof
        fix u assume "u \<in> set (ts[i := Finished])"
        then have "u = Finished \<or> u \<in> set ts" by (rule in_update)
        then show "legalTask r f w' u"
          using keep legal by (auto simp: legalTask_def)
      qed
      from phase True have p1: "pendingChangesByRepo w = [(r, [f])]" "\<not> list_ex isCommitCall (trace w)"
        by auto
      show ?thesis
        unfolding c se s oneFileInv_def
        using sf' l' p1 True by (simp add: c se s w'_def)
    next
      case False
      define w2 where "w2 = (if snapshotTimeoutId (w\<lparr>commitInProgress := True\<rparr>) \<noteq> None
         then w\<lparr>commitInProgress := True\<rparr>\<lparr>snapshotTimeoutId := None\<rparr> else w\<lparr>commitInProgress := True\<rparr>)"
      have s0: "stepTask env t w = nextRepo message (map fst (pendingChangesByRepo w2)) w2"
        using SweepCall False by (simp add: startSweep_def w2_def Let_def)
      have w2p: "pendingChangesByRepo w2 = pendingChangesByRepo w" "trace w2 = trace w"
        by (simp_all add: w2_def)
      from phase show ?thesis
      proof
        assume a: "pendingChangesByRepo w = [(r, [f])] \<and> \<not> list_ex isCommitCall (trace w) \<and>
          (\<not> commitInProgress w \<longrightarrow> (\<forall>t \<in> set ts. \<exists>message. t = SweepCall message))"
        have s: "stepTask env t w = (AwaitStatus message [] r [f] (commitMessageFor message [f]), w2)"
          using s0 a w2p by (simp add: filesOf_def Let_def)
        have keep: "\<And>u. legalTask r f w u \<Longrightarrow> legalTask r f w2 u"
          by (rule legalTask_keep) (auto simp: w2p)
        have l': "\<forall>u \<in> set (ts[i := AwaitStatus message [] r [f] (commitMessageFor message [f])]).
                    legalTask r f w2 u"
        proof
          fix u assume "u \<in> set (ts[i := AwaitStatus message [] r [f] (commitMessageFor message [f])])"
          then have "u = AwaitStatus message [] r [f] (commitMessageFor message [f]) \<or> u \<in> set ts"
            by (rule in_update)
          then show "legalTask r f w2 u"
            using keep legal a w2p by (auto simp: legalTask_def)
        qed
        have fl: "commitInProgress w2" by (simp add: w2_def)
        show ?thesis
          unfolding c se s oneFileInv_def
          using sf' l' a w2p fl by (simp add: c se s)
      next
        assume b: "pendingChangesByRepo w = [(r, [])] \<and> \<not> commitInProgress w \<and> committedOnce r f w"
        define w3 where "w3 = w2\<lparr>commitInProgress := False\<rparr>"
        have s: "stepTask env t w = (Finished, w3)"
          using s0 b w2p by (simp add: filesOf_def Let_def w3_def)
        have w3p: "pendingChangesByRepo w3 = pendingChangesByRepo w" "trace w3 = trace w"
          "\<not> commitInProgress w3"
          by (simp_all add: w3_def w2_def)
        have keep: "\<And>u. legalTask r f w u \<Longrightarrow> legalTask r f w3 u"
          by (rule legalTask_keep) (auto simp: w3p)
        have l': "\<forall>u \<in> set (ts[i := Finished]). legalTask r f w3 u"
        proof
          fix u assume "u \<in> set (ts[i := Finished])"
          then have "u = Finished \<or> u \<in> set ts" by (rule in_update)
          then show "legalTask r f w3 u"
            using keep legal by (auto simp: legalTask_def)
        qed
        have co: "committedOnce r f w3" using b w3p by (simp add: committedOnce_def)
        show ?thesis
          unfolding c se s oneFileInv_def
          using sf' l' b w3p co by (simp add: c se s)
      qed
    qed
  next
    case (TrackIsRepo p)
    with lt show ?thesis by (simp add: legalTask_def)
  next
    case (TrackRoot p)
    with lt show ?thesis by (simp add: legalTask_def)
  next
    case (AwaitStatus message rest repoRoot fileArray commitMessage)
    with lt have f1: "rest = []" "repoRoot = r" "fileArray = [f]"
      "pendingChangesByRepo w = [(r, [f])]" "\<not> list_ex isCommitCall (trace w)"
      by (simp_all add: legalTask_def)
    have fl: "commitInProgress w"
      using flag_of_sweeping[OF sf tin] AwaitStatus by simp
    from st_ok obtain st where st: "getGitStatus env (trace w) r = Inr st" by blast
    define w' where "w' = w\<lparr>trace := trace w @ [GitStatus r (Inr st)]\<rparr>"
    have s: "stepTask env t w = (AwaitCommit message [] r (filesToCommit st [f]) commitMessage, w')"
      using AwaitStatus f1 st by (simp add: w'_def)
    have keep: "\<And>u. legalTask r f w u \<Longrightarrow> legalTask r f w' u"
      by (rule legalTask_keep) (auto simp: w'_def)
    have l': "\<forall>u \<in> set (ts[i := AwaitCommit message [] r (filesToCommit st [f]) commitMessage]).
                legalTask r f w' u"
    proof
      fix u assume "u \<in> set (ts[i := AwaitCommit message [] r (filesToCommit st [f]) commitMessage])"
      then have "u = AwaitCommit message [] r (filesToCommit st [f]) commitMessage \<or> u \<in> set ts"
        by (rule in_update)
      then show "legalTask r f w' u"
      proof
        assume "u = AwaitCommit message [] r (filesToCommit st [f]) commitMessage"
        then show ?thesis using f1 by (auto simp: legalTask_def w'_def)
      next
        assume "u \<in> set ts"
        then show ?thesis using keep legal by blast
      qed
    qed
    show ?thesis
      unfolding c se s oneFileInv_def
      using sf' l' f1 fl by (simp add: c se s w'_def)
  next
    case (AwaitCommit message rest repoRoot allChangedFiles commitMessage)
    with lt have f1: "rest = []" "repoRoot = r"
      "pendingChangesByRepo w = [(r, [f])]" "\<not> list_ex isCommitCall (trace w)"
      by (simp_all add: legalTask_def)
    from lt AwaitCommit obtain st where
      st: "allChangedFiles = filesToCommit st [f]" "GitStatus r (Inr st) \<in> set (trace w)"
      by (auto simp: legalTask_def)
    from cm_ok obtain h where
      h: "commitChanges env (trace w) r allChangedFiles commitMessage = Inr h" by blast
    define w' where "w' = w\<lparr>pendingChangesByRepo := [(r, [])],
        trace := trace w @ [GitCommit r allChangedFiles commitMessage (Inr h)],
        commitInProgress := False\<rparr>"
    have s: "stepTask env t w = (Finished, w')"
      using AwaitCommit f1 h by (simp add: w'_def clearFiles_def)
    have nf: "\<not> commitInProgress w'" by (simp add: w'_def)
    have l': "\<forall>u \<in> set (ts[i := Finished]). legalTask r f w' u"
    proof
      fix u assume u: "u \<in> set (ts[i := Finished])"
      from sf' have "singleFlight (ts[i := Finished], w')" by (simp add: se s)
      from no_sweeping[OF this nf u] have ns: "\<not> sweeping u" .
      from u have "u = Finished \<or> u \<in> set ts" by (rule in_update)
      then show "legalTask r f w' u"
      proof
        assume "u = Finished" then show ?thesis by (simp add: legalTask_def)
      next
        assume "u \<in> set ts"
        from legal[OF this] ns show ?thesis by (rule legalTask_idle[rotated])
      qed
    qed
    have fc: "filter isCommitCall (trace w) = []"
      using f1(4) by (simp add: filter_empty_conv list_ex_iff)
    have co: "committedOnce r f w'"
      unfolding committedOnce_def
      by (rule exI[of _ st], rule exI[of _ commitMessage], rule exI[of _ h])
         (use fc st in \<open>simp add: w'_def\<close>)
    show ?thesis
      unfolding c se s oneFileInv_def
      using sf' l' nf co by (simp add: c se s w'_def)
  next
    case (EditRead p block)
    with lt show ?thesis by (simp add: legalTask_def)
  next
    case (Editing t' p content)
    with lt show ?thesis by (simp add: legalTask_def)
  next
    case Finished
    have s: "stepTask env t w = (Finished, w)" using Finished by simp
    have "ts[i := Finished] = ts" using Finished i by (simp add: t_def list_update_same_conv)
    with inv show ?thesis by (simp add: c se s)
  qed
qed

lemma oneFileInv_run:
  assumes "\<forall>tr. \<exists>st. getGitStatus env tr r = Inr st"
      and "\<forall>tr fs m. \<exists>h. commitChanges env tr r fs m = Inr h"
      and "oneFileInv r f c"
  shows "oneFileInv r f (run env schedule c)"
  using assms(3)
  by (induction schedule arbitrary: c) (simp_all add: oneFileInv_stepAt[OF assms(1,2)])

lemma two_calls_one_commit:
  assumes pend: "pendingChangesByRepo w = [(r, [f])]"
      and idle: "\<not> commitInProgress w"
      and fresh: "\<not> list_ex isCommitCall (trace w)"
      and st_ok: "\<forall>tr. \<exists>st. getGitStatus env tr r = Inr st"
      and cm_ok: "\<forall>tr fs m. \<exists>h. commitChanges env tr r fs m = Inr h"
      and fin: "run env schedule ([SweepCall m1, SweepCall m2], w) = ([Finished, Finished], w')"
  shows "pendingChangesByRepo w' = [(r, [])] \<and> \<not> commitInProgress w' \<and> committedOnce r f w'"
proof -
  have "oneFileInv r f ([SweepCall m1, SweepCall m2], w)"
    using pend idle fresh by (simp add: oneFileInv_def singleFlight_def legalTask_def)
  from oneFileInv_run[OF st_ok cm_ok this, of schedule] fin
  have inv: "oneFileInv r f ([Finished, Finished], w')" by simp
  then have sf: "singleFlight ([Finished, Finished], w')" by (simp add: oneFileInv_def)
  then have nf: "\<not> commitInProgress w'" by (simp add: singleFlight_def split: if_splits)
  from inv nf show ?thesis by (auto simp: oneFileInv_def)
qed

lemma filesToCommit_mem:
  "modified st @ not_added st @ staged st = [] \<or> f \<in> set (modified st @ not_added st @ staged st)
     \<Longrightarrow> f \<in> set (filesToCommit st [f])"
  by (auto simp: filesToCommit_eq)

lemmas task_defs = stepAt_def startSweep_def filesOf_def clearFiles_def singleFlight_def


text \<open>
  Claim C1, as the code has it. A call of the sweep that finds the flag set returns at
  once without an error: it writes the log line and changes nothing else, so nothing is
  committed, nothing is queued and the pending sets are as they were. Whatever the
  interleaving of the calls, the flag is set exactly while one sweep is inside its loop,
  and never more than one is. Two calls made over one pending file \<open>f\<close> of a repository
  \<open>r\<close> whose status query and commit return, run to their end in any interleaving, call
  the commit exactly once and leave the set empty; the files of that commit are those the
  status lists, and they contain \<open>f\<close> when the status lists \<open>f\<close> or lists nothing.
\<close>

theorem C1_single_flight:
  "(commitInProgress v \<longrightarrow>
      createSnapshotsForPendingChanges env message v = (Inr (), v\<lparr>trace := trace v @ [SkipDuplicate]\<rparr>) \<and>
      stepTask env (SweepCall message) v = (Finished, v\<lparr>trace := trace v @ [SkipDuplicate]\<rparr>)) \<and>
   (singleFlight c \<longrightarrow>
      singleFlight (run env schedule c) \<and> length (filter sweeping (fst (run env schedule c))) \<le> 1) \<and>
   (pendingChangesByRepo w = [(r, [f])] \<and> \<not> commitInProgress w \<and> \<not> list_ex isCommitCall (trace w) \<and>
    (\<forall>tr. \<exists>st. getGitStatus env tr r = Inr st) \<and>
    (\<forall>tr fs m. \<exists>h. commitChanges env tr r fs m = Inr h) \<and>
    run env schedule ([SweepCall m1, SweepCall m2], w) = ([Finished, Finished], w')
    \<longrightarrow>
      pendingChangesByRepo w' = [(r, [])] \<and> \<not> commitInProgress w' \<and>
      (\<exists>st cm h.
         filter isCommitCall (trace w') = [GitCommit r (filesToCommit st [f]) cm (Inr h)] \<and>
         GitStatus r (Inr st) \<in> set (trace w') \<and>
         (modified st @ not_added st @ staged st = [] \<or>
          f \<in> set (modified st @ not_added st @ staged st) \<longrightarrow> f \<in> set (filesToCommit st [f]))))"
proof (intro conjI impI)
  assume "commitInProgress v"
  then show "createSnapshotsForPendingChanges env message v = (Inr (), v\<lparr>trace := trace v @ [SkipDuplicate]\<rparr>)"
    and "stepTask env (SweepCall message) v = (Finished, v\<lparr>trace := trace v @ [SkipDuplicate]\<rparr>)"
    using dropped_call by blast+
next
  assume "singleFlight c"
  then show "singleFlight (run env schedule c)" by (rule singleFlight_run)
  then show "length (filter sweeping (fst (run env schedule c))) \<le> 1" by (rule singleFlight_le)
next
  assume a: "pendingChangesByRepo w = [(r, [f])] \<and> \<not> commitInProgress w \<and> \<not> list_ex isCommitCall (trace w) \<and>
    (\<forall>tr. \<exists>st. getGitStatus env tr r = Inr st) \<and>
    (\<forall>tr fs m. \<exists>h. commitChanges env tr r fs m = Inr h) \<and>
    run env schedule ([SweepCall m1, SweepCall m2], w) = ([Finished, Finished], w')"
  then have r: "pendingChangesByRepo w' = [(r, [])] \<and> \<not> commitInProgress w' \<and> committedOnce r f w'"
    using two_calls_one_commit[of w r f env schedule m1 m2 w'] by blast
  from r show "pendingChangesByRepo w' = [(r, [])]" by simp
  from r show "\<not> commitInProgress w'" by simp
  from r obtain st cm h where
    "filter isCommitCall (trace w') = [GitCommit r (filesToCommit st [f]) cm (Inr h)]"
    "GitStatus r (Inr st) \<in> set (trace w')" by (auto simp: committedOnce_def)
  then show "\<exists>st cm h.
         filter isCommitCall (trace w') = [GitCommit r (filesToCommit st [f]) cm (Inr h)] \<and>
         GitStatus r (Inr st) \<in> set (trace w') \<and>
         (modified st @ not_added st @ staged st = [] \<or>
          f \<in> set (modified st @ not_added st @ staged st) \<longrightarrow> f \<in> set (filesToCommit st [f]))"
    using filesToCommit_mem[of st f] by blast
qed


theorem C1_single_flight_witness:
  "commitInProgress (worldE\<lparr>commitInProgress := True\<rparr>) \<and>
   createSnapshotsForPendingChanges envA None (worldE\<lparr>commitInProgress := True\<rparr>) =
     (Inr (), worldE\<lparr>commitInProgress := True, trace := [SkipDuplicate]\<rparr>) \<and>
   singleFlight (twoTriggers, worldE) \<and>
   run envA [0, 1, 0, 0] (twoTriggers, worldE) =
     ([Finished, Finished],
      worldE\<lparr>pendingChangesByRepo := [(''/repo'', [])],
             trace := [SkipDuplicate,
                       GitStatus ''/repo'' (Inr \<lparr>modified = [''a.txt''], not_added = [], staged = []\<rparr>),
                       GitCommit ''/repo'' [''a.txt''] ''Project snapshot before editing a.txt''
                         (Inr ''c0ffee1'')]\<rparr>)"
  using C1_single_flight[where v = "worldE\<lparr>commitInProgress := True\<rparr>" and env = envA and message = None
      and c = "(twoTriggers, worldE)" and schedule = "[0, 1, 0, 0]" and w = worldE and r = "''/repo''"
      and f = "''a.txt''" and ?m1.0 = None and ?m2.0 = None
      and w' = "snd (run envA [0, 1, 0, 0] (twoTriggers, worldE))"]
  by (simp add: envA_def twoTriggers_def worldE_def task_defs eval_defs)


text \<open>
  The status lists \<open>b.txt\<close> and not the pending \<open>a.txt\<close>: the one commit of the two
  calls is made of \<open>b.txt\<close> and does not contain \<open>a.txt\<close>.
\<close>

theorem C1_commit_may_omit_file:
  "run envC [0, 1, 0, 0] (twoTriggers, worldE) =
     ([Finished, Finished],
      worldE\<lparr>pendingChangesByRepo := [(''/repo'', [])],
             trace := [SkipDuplicate,
                       GitStatus ''/repo'' (Inr \<lparr>modified = [''b.txt''], not_added = [], staged = []\<rparr>),
                       GitCommit ''/repo'' [''b.txt''] ''Project snapshot before editing a.txt''
                         (Inr ''c0ffee1'')]\<rparr>) \<and>
   ''a.txt'' \<notin> set [''b.txt'']"
  by (simp add: envC_def envA_def twoTriggers_def worldE_def task_defs eval_defs)


text \<open>
  An enrollment made while the running sweep waits for the commit of the same repository:
  \<open>b.txt\<close> is added to the set, its own call of the sweep is dropped, and the
  \<open>files.clear()\<close> of the running sweep then empties the set, although the commit was of
  \<open>a.txt\<close> alone.
\<close>

lemma enrollment_cleared_by_running_sweep:
  "run envE [0, 0, 1, 1, 0] (sweepAndEnroll, worldE) =
     ([Finished, Finished],
      worldE\<lparr>pendingChangesByRepo := [(''/repo'', [])],
             lastTrackTimestamp := 0,
             trace := [GitStatus ''/repo'' (Inr \<lparr>modified = [], not_added = [], staged = []\<rparr>),
                       Tracked ''b.txt'' ''/repo'',
                       SkipDuplicate,
                       GitCommit ''/repo'' [''a.txt''] ''Project snapshot before editing a.txt''
                         (Inr ''c0ffee1'')]\<rparr>)"
  by (simp add: envE_def envA_def sweepAndEnroll_def worldE_def task_defs eval_defs)


subsection \<open>The edit of a regular file\<close>

text \<open>
  Claim C6 says that the edit enrolls the file before it writes, so that the checkpoint
  holds the file as it was before the edit. \<open>isGitRepository\<close> runs the git client with
  the path it is given as working directory, and the edit gives it the path of the file.
  In \<open>envR\<close> git runs in the directory \<open>/repo\<close> and throws when started in the regular
  file \<open>/repo/a.txt\<close>: \<open>isGitRepository\<close> answers false for the file, \<open>trackFileChange\<close>
  returns without enrolling it, and the edit writes. The trace of the edit is the write
  alone, no \<open>Tracked\<close> line and no commit, and nothing is pending afterwards; the edit
  run as a task does the same.
\<close>

theorem C6_regular_file_not_enrolled:
  "\<not> isGitRepository envR [] ''/repo/a.txt'' \<and>
   isGitRepository envR [] ''/repo'' \<and>
   performSearchReplace envR ''/repo/a.txt'' \<lparr>search = ''foo'', replace = ''baz''\<rparr> (worldA ''foo bar foo'') =
     (Some (Inr \<lparr>contentText = ''Successfully applied edit to /repo/a.txt'', isError = False\<rparr>),
      (worldA ''foo bar foo'')
        \<lparr>disk := [''/repo/a.txt'' \<mapsto> ''baz bar foo''],
         trace := [WriteFile ''/repo/a.txt'' ''baz bar foo'']\<rparr>) \<and>
   pendingChangesByRepo
     (snd (performSearchReplace envR ''/repo/a.txt'' \<lparr>search = ''foo'', replace = ''baz''\<rparr>
             (worldA ''foo bar foo''))) = [] \<and>
   run envR [0, 0, 0]
       ([EditRead ''/repo/a.txt'' \<lparr>search = ''foo'', replace = ''baz''\<rparr>], worldA ''foo bar foo'') =
     ([Finished],
      (worldA ''foo bar foo'')
        \<lparr>disk := [''/repo/a.txt'' \<mapsto> ''baz bar foo''],
         trace := [WriteFile ''/repo/a.txt'' ''baz bar foo'']\<rparr>)"
  by (simp add: envR_def envA_def worldA_def task_defs eval_defs read_defs)


subsection \<open>The sweep never throws\<close>

text \<open>
  Claim C7. The sweep returns without throwing whatever the adapter does, and a sweep that
  found the flag free leaves it free (a dropped call does not touch the flag, which
  belongs to the sweep in progress). In any interleaving of calls, once no sweep is inside
  its loop the flag is free.
\<close>

theorem C7_never_raises:
  "fst (createSnapshotsForPendingChanges env message w) = Inr () \<and>
   (\<not> commitInProgress w \<longrightarrow> \<not> commitInProgress (snd (createSnapshotsForPendingChanges env message w))) \<and>
   (singleFlight c \<and> filter sweeping (fst (run env schedule c)) = []
      \<longrightarrow> \<not> commitInProgress (snd (run env schedule c)))"
proof (intro conjI impI)
  show "fst (createSnapshotsForPendingChanges env message w) = Inr ()"
    by (simp add: createSnapshotsForPendingChanges_def sweepBody_def Let_def)
next
  assume "\<not> commitInProgress w"
  then show "\<not> commitInProgress (snd (createSnapshotsForPendingChanges env message w))"
    by (simp add: createSnapshotsForPendingChanges_def sweepBody_def Let_def)
next
  assume a: "singleFlight c \<and> filter sweeping (fst (run env schedule c)) = []"
  then have "singleFlight (run env schedule c)" by (simp add: singleFlight_run)
  with a show "\<not> commitInProgress (snd (run env schedule c))"
    by (simp add: singleFlight_def split: if_splits)
qed


theorem C7_never_raises_witness:
  "\<not> commitInProgress worldB \<and>
   createSnapshotsForPendingChanges envB None worldB =
     (Inr (), worldB\<lparr>pendingChangesByRepo := [(''/repo1'', [''a.txt'']), (''/repo2'', []), (''/repo3'', [''c.txt''])],
        trace := [GitStatus ''/repo1'' (Inr \<lparr>modified = [], not_added = [], staged = []\<rparr>),
                  GitCommit ''/repo1'' [''a.txt''] ''Project snapshot before editing a.txt'' (Inl (Error ''nothing to commit'')),
                  GitStatus ''/repo2'' (Inr \<lparr>modified = [], not_added = [], staged = []\<rparr>),
                  GitCommit ''/repo2'' [''b.txt''] ''Project snapshot before editing b.txt'' (Inr ''beef002''),
                  GitStatus ''/repo3'' (Inl (Error ''status failed''))]\<rparr>) \<and>
   \<not> commitInProgress (snd (createSnapshotsForPendingChanges envB None worldB)) \<and>
   singleFlight ([SweepCall None], worldB) \<and>
   run envB [0, 0, 0, 0, 0, 0] ([SweepCall None], worldB) =
     ([Finished], snd (createSnapshotsForPendingChanges envB None worldB)) \<and>
   \<not> commitInProgress (snd (run envB [0, 0, 0, 0, 0, 0] ([SweepCall None], worldB)))"
  using C7_never_raises[where env = envB and message = None and w = worldB
      and c = "([SweepCall None], worldB)" and schedule = "[0, 0, 0, 0, 0, 0]"]
  by (simp add: envB_def envA_def worldB_def task_defs eval_defs)


subsection \<open>The debounce\<close>

lemmas debounce_defs = trackFileChange_debounced_def trackFileChangeTry_debounced_def
  scheduleSnapshotCreation_def timerCallback_def createSnapshotsForPendingChanges_debounced_def
  snapshotRepo_debounced_def snapshotRepoTry_debounced_def commitMessageFor_debounced_def
  fireTimer_def timerDue_def timerDelay_def

lemma snapshotRepo_debounced_trace:
  "\<exists>evs. snd (snapshotRepo_debounced env m e tr) = tr @ evs \<and> \<not> list_ex isAutoSnapshot evs"
  by (auto simp: snapshotRepo_debounced_def snapshotRepoTry_debounced_def Let_def split: sum.splits)

lemma snapshotRepos_debounced_trace:
  "\<exists>evs. snd (snapshotRepos_debounced env m es tr) = tr @ evs \<and> \<not> list_ex isAutoSnapshot evs"
proof (induction es arbitrary: tr)
  case Nil
  show ?case by simp
next
  case (Cons e es)
  from snapshotRepo_debounced_trace[of env m e tr] obtain evs1 where
    1: "snd (snapshotRepo_debounced env m e tr) = tr @ evs1" "\<not> list_ex isAutoSnapshot evs1" by blast
  from Cons.IH[of "tr @ evs1"] obtain evs2 where
    2: "snd (snapshotRepos_debounced env m es (tr @ evs1)) = (tr @ evs1) @ evs2"
       "\<not> list_ex isAutoSnapshot evs2" by blast
  show ?case
    by (rule exI[of _ "evs1 @ evs2"]) (use 1 2 in \<open>simp add: Let_def\<close>)
qed

lemma sweep_debounced_idle:
  assumes "\<not> commitInProgress w"
  shows "\<exists>evs. trace (snd (createSnapshotsForPendingChanges_debounced env m w)) = trace w @ evs \<and>
           \<not> list_ex isAutoSnapshot evs \<and>
           snapshotTimeoutId (snd (createSnapshotsForPendingChanges_debounced env m w)) = None \<and>
           \<not> commitInProgress (snd (createSnapshotsForPendingChanges_debounced env m w))"
proof -
  define w2 where "w2 = (if snapshotTimeoutId (w\<lparr>commitInProgress := True\<rparr>) \<noteq> None
     then w\<lparr>commitInProgress := True\<rparr>\<lparr>snapshotTimeoutId := None\<rparr> else w\<lparr>commitInProgress := True\<rparr>)"
  have t2: "trace w2 = trace w" "snapshotTimeoutId w2 = None" by (simp_all add: w2_def)
  from snapshotRepos_debounced_trace[of env m "pendingChangesByRepo w2" "trace w2"] obtain evs where
    1: "snd (snapshotRepos_debounced env m (pendingChangesByRepo w2) (trace w2)) = trace w2 @ evs"
       "\<not> list_ex isAutoSnapshot evs" by blast
  have s: "snd (createSnapshotsForPendingChanges_debounced env m w) =
             w2\<lparr>pendingChangesByRepo := fst (snapshotRepos_debounced env m (pendingChangesByRepo w2) (trace w2)),
                trace := snd (snapshotRepos_debounced env m (pendingChangesByRepo w2) (trace w2)),
                commitInProgress := False\<rparr>"
    using assms by (simp add: createSnapshotsForPendingChanges_debounced_def w2_def Let_def)
  show ?thesis
    by (rule exI[of _ evs]) (use 1 t2 in \<open>simp add: s\<close>)
qed

lemma enroll_arms:
  assumes repo: "isGitRepository env (trace w) p"
      and root: "getRepositoryRoot env (trace w) p = Inr repoRoot"
      and idle: "\<not> commitInProgress w"
      and d: "1 \<le> d" "d \<le> 2147483647"
  shows "armedAt d (now w) (trackFileChange_debounced d env p w) \<and>
         trace (trackFileChange_debounced d env p w) =
           trace w @ [Tracked (removeFirst p (repoRoot @ ''/'')) repoRoot]"
  using assms
  by (simp add: trackFileChange_debounced_def trackFileChangeTry_debounced_def
        scheduleSnapshotCreation_def timerDelay_def armedAt_def Let_def)

lemma fire_sweeps:
  assumes a: "armedAt d t w"
  shows "\<exists>evs. trace (fireTimer d env w) = trace w @ AutoSnapshot (t + d) d # evs \<and>
           \<not> list_ex isAutoSnapshot evs \<and>
           snapshotTimeoutId (fireTimer d env w) = None"
proof -
  define w1 where "w1 = w\<lparr>now := t + d,
      snapshotTimeoutId := Some \<lparr>fireAt = t + d, window = d, armed = False\<rparr>,
      trace := trace w @ [AutoSnapshot (t + d) d]\<rparr>"
  have f: "fireTimer d env w =
      snd (createSnapshotsForPendingChanges_debounced env (Some ''Auto-snapshot after inactivity period'') w1)"
    using a by (simp add: fireTimer_def timerCallback_def armedAt_def w1_def Let_def max_def)
  have "\<not> commitInProgress w1" using a by (simp add: armedAt_def w1_def)
  from sweep_debounced_idle[OF this, of env "Some ''Auto-snapshot after inactivity period''"]
  obtain evs where
    1: "trace (fireTimer d env w) = trace w1 @ evs" "\<not> list_ex isAutoSnapshot evs"
       "snapshotTimeoutId (fireTimer d env w) = None"
    unfolding f by blast
  show ?thesis
    by (rule exI[of _ evs]) (use 1 in \<open>simp add: w1_def\<close>)
qed

lemma runTimers_none: "snapshotTimeoutId w = None \<Longrightarrow> runTimers fuel d env until w = w"
  by (cases fuel) (simp_all add: timerDue_def)

lemma runTimers_not_due:
  "armedAt d t w \<Longrightarrow> t' < t + d \<Longrightarrow> runTimers fuel d env (Some t') w = w"
  by (cases fuel) (simp_all add: timerDue_def armedAt_def)

lemma filter_auto_none: "\<not> list_ex isAutoSnapshot evs \<Longrightarrow> filter isAutoSnapshot evs = []"
  by (simp add: filter_empty_conv list_ex_iff)

lemma debounce_tail:
  assumes ok: "\<forall>tr p. isGitRepository env tr p \<and> (\<exists>root. getRepositoryRoot env tr p = Inr root)"
      and d: "1 \<le> d" "d \<le> 2147483647"
      and fuel: "0 < fuel"
      and a: "armedAt d t w"
      and close: "closeTogether d (t # map fst rest)"
  shows "filter isAutoSnapshot (trace (simulate fuel d env rest w)) =
           filter isAutoSnapshot (trace w) @ [AutoSnapshot (last (t # map fst rest) + d) d]"
  using a close
proof (induction rest arbitrary: t w)
  case Nil
  from fuel obtain n where n: "fuel = Suc n" by (cases fuel) auto
  from fire_sweeps[OF Nil.prems(1), of env] obtain evs where
    1: "trace (fireTimer d env w) = trace w @ AutoSnapshot (t + d) d # evs"
       "\<not> list_ex isAutoSnapshot evs" "snapshotTimeoutId (fireTimer d env w) = None" by blast
  have due: "timerDue None w" using Nil.prems(1) by (simp add: timerDue_def armedAt_def)
  have "simulate fuel d env [] w = fireTimer d env w"
    using due runTimers_none[OF 1(3)] by (simp add: n)
  then show ?case using 1 by (simp add: filter_auto_none)
next
  case (Cons e rest)
  obtain t' p where e: "e = (t', p)" by (cases e)
  from Cons.prems(2) e have tt: "t \<le> t'" "t' < t + d" and cl: "closeTogether d (t' # map fst rest)"
    by simp_all
  have nd: "runTimers fuel d env (Some t') w = w"
    using Cons.prems(1) tt(2) by (rule runTimers_not_due)
  define w1 where "w1 = w\<lparr>now := max (now w) t'\<rparr>"
  have nw: "now w1 = t'" using Cons.prems(1) tt by (simp add: w1_def armedAt_def max_def)
  have idle: "\<not> commitInProgress w1" using Cons.prems(1) by (simp add: w1_def armedAt_def)
  from ok obtain root where r: "isGitRepository env (trace w1) p"
    "getRepositoryRoot env (trace w1) p = Inr root" by blast
  from enroll_arms[OF r idle d] nw have
    a': "armedAt d t' (trackFileChange_debounced d env p w1)" and
    tr': "trace (trackFileChange_debounced d env p w1) =
            trace w @ [Tracked (removeFirst p (root @ ''/'')) root]"
    by (simp_all add: w1_def)
  have s: "simulate fuel d env (e # rest) w =
             simulate fuel d env rest (trackFileChange_debounced d env p w1)"
    by (simp add: e nd w1_def)
  have l: "last (t # map fst (e # rest)) = last (t' # map fst rest)" by (simp add: e)
  have "filter isAutoSnapshot (trace (simulate fuel d env (e # rest) w)) =
          filter isAutoSnapshot (trace (trackFileChange_debounced d env p w1)) @
            [AutoSnapshot (last (t' # map fst rest) + d) d]"
    unfolding s by (rule Cons.IH[OF a' cl])
  also have "filter isAutoSnapshot (trace (trackFileChange_debounced d env p w1)) =
          filter isAutoSnapshot (trace w)"
    by (simp add: tr')
  finally show ?case unfolding l .
qed

lemma debounce_once:
  assumes ok: "\<forall>tr p. isGitRepository env tr p \<and> (\<exists>root. getRepositoryRoot env tr p = Inr root)"
      and d: "1 \<le> d" "d \<le> 2147483647"
      and fuel: "0 < fuel"
      and idle: "\<not> commitInProgress w" "snapshotTimeoutId w = None"
      and start: "now w \<le> fst e"
      and close: "closeTogether d (map fst (e # rest))"
  shows "filter isAutoSnapshot (trace (simulate fuel d env (e # rest) w)) =
           filter isAutoSnapshot (trace w) @ [AutoSnapshot (last (map fst (e # rest)) + d) d]"
proof -
  obtain t p where e: "e = (t, p)" by (cases e)
  define w1 where "w1 = w\<lparr>now := max (now w) t\<rparr>"
  have nw: "now w1 = t" using start e by (simp add: w1_def max_def)
  have i1: "\<not> commitInProgress w1" using idle by (simp add: w1_def)
  from ok obtain root where r: "isGitRepository env (trace w1) p"
    "getRepositoryRoot env (trace w1) p = Inr root" by blast
  from enroll_arms[OF r i1 d] nw have
    a': "armedAt d t (trackFileChange_debounced d env p w1)" and
    tr': "trace (trackFileChange_debounced d env p w1) =
            trace w @ [Tracked (removeFirst p (root @ ''/'')) root]"
    by (simp_all add: w1_def)
  have s: "simulate fuel d env (e # rest) w =
             simulate fuel d env rest (trackFileChange_debounced d env p w1)"
    using runTimers_none[OF idle(2)] by (simp add: e w1_def)
  from close e have cl: "closeTogether d (t # map fst rest)" by simp
  have l: "last (map fst (e # rest)) = last (t # map fst rest)" by (simp add: e)
  have "filter isAutoSnapshot (trace (simulate fuel d env (e # rest) w)) =
          filter isAutoSnapshot (trace (trackFileChange_debounced d env p w1)) @
            [AutoSnapshot (last (t # map fst rest) + d) d]"
    unfolding s by (rule debounce_tail[OF ok d fuel a' cl])
  also have "filter isAutoSnapshot (trace (trackFileChange_debounced d env p w1)) =
          filter isAutoSnapshot (trace w)"
    by (simp add: tr')
  finally show ?thesis unfolding l .
qed


text \<open>
  Claim C8, as the code has it. An enrollment of a file of a repository made while no
  sweep is in progress sets the timer anew, one window after the enrollment; one made
  while a sweep is in progress adds the file to the pending set, sets the time of the last
  enrollment, and leaves the timer as it is. The callback of the timer reschedules, and sweeps nothing, when the last enrollment is less than its
  \<open>timeoutMs\<close> old, and sweeps otherwise. So enrollments that are less than one window
  apart, starting from an idle state, are followed by exactly one sweep of the timer, one
  window after the last of them: at 300 for enrollments at 0, 50 and 100 and a window of
  200.
\<close>

theorem C8_debounce:
  "(isGitRepository env (trace w) p \<and> getRepositoryRoot env (trace w) p = Inr repoRoot \<and>
    \<not> commitInProgress w
      \<longrightarrow> snapshotTimeoutId (trackFileChange_debounced d env p w) =
             Some \<lparr>fireAt = now w + timerDelay (int d), window = d, armed = True\<rparr> \<and>
           lastTrackTimestamp (trackFileChange_debounced d env p w) = now w) \<and>
   (isGitRepository env (trace s) q \<and> getRepositoryRoot env (trace s) q = Inr root \<and>
    commitInProgress s
      \<longrightarrow> snapshotTimeoutId (trackFileChange_debounced d env q s) = snapshotTimeoutId s \<and>
           lastTrackTimestamp (trackFileChange_debounced d env q s) = now s \<and>
           pendingChangesByRepo (trackFileChange_debounced d env q s) =
             addPending root (removeFirst q (root @ ''/'')) (pendingChangesByRepo s) \<and>
           trace (trackFileChange_debounced d env q s) =
             trace s @ [Tracked (removeFirst q (root @ ''/'')) root]) \<and>
   (int (now v) - int (lastTrackTimestamp v) < int timeoutMs
      \<longrightarrow> timerCallback d env timeoutMs v = scheduleSnapshotCreation d v \<and>
           trace (timerCallback d env timeoutMs v) = trace v \<and>
           pendingChangesByRepo (timerCallback d env timeoutMs v) = pendingChangesByRepo v) \<and>
   (int timeoutMs' \<le> int (now v') - int (lastTrackTimestamp v')
      \<longrightarrow> timerCallback d env timeoutMs' v' =
             snd (createSnapshotsForPendingChanges_debounced env
                    (Some ''Auto-snapshot after inactivity period'')
                    (v'\<lparr>trace := trace v' @ [AutoSnapshot (now v') timeoutMs']\<rparr>))) \<and>
   ((\<forall>tr q. isGitRepository env tr q \<and> (\<exists>root. getRepositoryRoot env tr q = Inr root)) \<and>
    1 \<le> d \<and> d \<le> 2147483647 \<and> 0 < fuel \<and>
    \<not> commitInProgress u \<and> snapshotTimeoutId u = None \<and> now u \<le> fst e \<and>
    closeTogether d (map fst (e # rest))
      \<longrightarrow> filter isAutoSnapshot (trace (simulate fuel d env (e # rest) u)) =
             filter isAutoSnapshot (trace u) @ [AutoSnapshot (last (map fst (e # rest)) + d) d])"
proof (intro conjI impI)
  assume "isGitRepository env (trace w) p \<and> getRepositoryRoot env (trace w) p = Inr repoRoot \<and>
    \<not> commitInProgress w"
  then show "snapshotTimeoutId (trackFileChange_debounced d env p w) =
             Some \<lparr>fireAt = now w + timerDelay (int d), window = d, armed = True\<rparr>"
    and "lastTrackTimestamp (trackFileChange_debounced d env p w) = now w"
    by (simp_all add: trackFileChange_debounced_def trackFileChangeTry_debounced_def
          scheduleSnapshotCreation_def Let_def)
next
  assume "isGitRepository env (trace s) q \<and> getRepositoryRoot env (trace s) q = Inr root \<and>
    commitInProgress s"
  then show "snapshotTimeoutId (trackFileChange_debounced d env q s) = snapshotTimeoutId s"
    and "lastTrackTimestamp (trackFileChange_debounced d env q s) = now s"
    and "pendingChangesByRepo (trackFileChange_debounced d env q s) =
             addPending root (removeFirst q (root @ ''/'')) (pendingChangesByRepo s)"
    and "trace (trackFileChange_debounced d env q s) =
             trace s @ [Tracked (removeFirst q (root @ ''/'')) root]"
    by (simp_all add: trackFileChange_debounced_def trackFileChangeTry_debounced_def Let_def)
next
  assume "int (now v) - int (lastTrackTimestamp v) < int timeoutMs"
  then show "timerCallback d env timeoutMs v = scheduleSnapshotCreation d v"
    and "trace (timerCallback d env timeoutMs v) = trace v"
    and "pendingChangesByRepo (timerCallback d env timeoutMs v) = pendingChangesByRepo v"
    by (simp_all add: timerCallback_def scheduleSnapshotCreation_def Let_def)
next
  assume "int timeoutMs' \<le> int (now v') - int (lastTrackTimestamp v')"
  then show "timerCallback d env timeoutMs' v' =
             snd (createSnapshotsForPendingChanges_debounced env
                    (Some ''Auto-snapshot after inactivity period'')
                    (v'\<lparr>trace := trace v' @ [AutoSnapshot (now v') timeoutMs']\<rparr>))"
    by (simp add: timerCallback_def Let_def)
next
  assume a: "(\<forall>tr q. isGitRepository env tr q \<and> (\<exists>root. getRepositoryRoot env tr q = Inr root)) \<and>
    1 \<le> d \<and> d \<le> 2147483647 \<and> 0 < fuel \<and>
    \<not> commitInProgress u \<and> snapshotTimeoutId u = None \<and> now u \<le> fst e \<and>
    closeTogether d (map fst (e # rest))"
  show "filter isAutoSnapshot (trace (simulate fuel d env (e # rest) u)) =
             filter isAutoSnapshot (trace u) @ [AutoSnapshot (last (map fst (e # rest)) + d) d]"
    by (rule debounce_once) (use a in simp_all)
qed


theorem C8_debounce_witness:
  "isGitRepository envA (trace worldF) ''/repo/a.txt'' \<and>
   getRepositoryRoot envA (trace worldF) ''/repo/a.txt'' = Inr ''/repo'' \<and>
   \<not> commitInProgress worldF \<and>
   snapshotTimeoutId (trackFileChange_debounced 200 envA ''/repo/a.txt'' worldF) =
     Some \<lparr>fireAt = 200, window = 200, armed = True\<rparr> \<and>
   commitInProgress (worldF\<lparr>commitInProgress := True, now := 40\<rparr>) \<and>
   trackFileChange_debounced 200 envA ''/repo/b.txt'' (worldF\<lparr>commitInProgress := True, now := 40\<rparr>) =
     worldF\<lparr>commitInProgress := True, now := 40, lastTrackTimestamp := 40,
            pendingChangesByRepo := [(''/repo'', [''b.txt''])],
            trace := [Tracked ''b.txt'' ''/repo'']\<rparr> \<and>
   timerCallback 200 envA 200 (worldF\<lparr>now := 100, lastTrackTimestamp := 50\<rparr>) =
     worldF\<lparr>now := 100, lastTrackTimestamp := 50,
            snapshotTimeoutId := Some \<lparr>fireAt = 300, window = 200, armed = True\<rparr>\<rparr> \<and>
   trace (timerCallback 200 envA 200 (worldF\<lparr>now := 300, lastTrackTimestamp := 100\<rparr>)) =
     [AutoSnapshot 300 200] \<and>
   closeTogether 200 (map fst threeEnrollments) \<and>
   filter isAutoSnapshot (trace (simulate 1 200 envA threeEnrollments worldF)) = [AutoSnapshot 300 200] \<and>
   trace (simulate 1 200 envA threeEnrollments worldF) =
     [Tracked ''a.txt'' ''/repo'', Tracked ''a.txt'' ''/repo'', Tracked ''a.txt'' ''/repo'',
      AutoSnapshot 300 200,
      GitCommit ''/repo'' [''a.txt''] ''Auto-snapshot after inactivity period'' (Inr ''c0ffee1'')]"
  using C8_debounce[where env = envA and w = worldF and p = "''/repo/a.txt''" and repoRoot = "''/repo''"
      and s = "worldF\<lparr>commitInProgress := True, now := 40\<rparr>" and q = "''/repo/b.txt''"
      and root = "''/repo''"
      and d = 200 and v = "worldF\<lparr>now := 100, lastTrackTimestamp := 50\<rparr>" and timeoutMs = 200
      and v' = "worldF\<lparr>now := 300, lastTrackTimestamp := 100\<rparr>" and timeoutMs' = 200
      and fuel = 1 and u = worldF
      and e = "(0, ''/repo/a.txt'')" and rest = "[(50, ''/repo/a.txt''), (100, ''/repo/a.txt'')]"]
  by (simp add: debounce_defs worldF_def threeEnrollments_def envA_def eval_defs)


text \<open>
  An enrollment made at time 40 while a sweep is in progress: the file is added to the
  pending set, the time of the last enrollment becomes 40, and no timer is set.
\<close>

theorem C8_no_timer_during_sweep:
  "isGitRepository envA [] ''/repo/a.txt'' \<and>
   trackFileChange_debounced 200 envA ''/repo/a.txt''
       (worldF\<lparr>commitInProgress := True, now := 40\<rparr>) =
     worldF\<lparr>commitInProgress := True, now := 40, lastTrackTimestamp := 40,
            pendingChangesByRepo := [(''/repo'', [''a.txt''])],
            trace := [Tracked ''a.txt'' ''/repo'']\<rparr> \<and>
   snapshotTimeoutId (trackFileChange_debounced 200 envA ''/repo/a.txt''
                        (worldF\<lparr>commitInProgress := True, now := 40\<rparr>)) = None"
  by (simp add: debounce_defs worldF_def threeEnrollments_def envA_def eval_defs)


text \<open>With the window of the source, 15000, the one sweep of the timer is at 15100.\<close>

lemma debounce_default_window:
  "filter isAutoSnapshot (trace (simulate 1 DEFAULT_BATCH_TIMEOUT envA threeEnrollments worldF)) =
     [AutoSnapshot 15100 15000]"
proof -
  have ok: "\<forall>tr p. isGitRepository envA tr p \<and> (\<exists>root. getRepositoryRoot envA tr p = Inr root)"
    by (simp add: envA_def isGitRepository_def getRepositoryRoot_def)
  have "filter isAutoSnapshot
          (trace (simulate 1 15000 envA ((0, ''/repo/a.txt'') # [(50, ''/repo/a.txt''), (100, ''/repo/a.txt'')]) worldF)) =
        filter isAutoSnapshot (trace worldF) @
          [AutoSnapshot (last (map fst ((0, ''/repo/a.txt'') # [(50, ''/repo/a.txt''), (100, ''/repo/a.txt'')])) + 15000) 15000]"
    by (rule debounce_once[OF ok]) (simp_all add: worldF_def)
  then show ?thesis
    by (simp add: DEFAULT_BATCH_TIMEOUT_def threeEnrollments_def worldF_def)
qed

end
